theory Spec2Isabelle
  imports Complex_Main "HOL-Library.Log_Nat"
begin

section \<open>Number model\<close>

text \<open>
  The calculator works on Python numbers.  Raw stat values, weapon damage, potencies and
  every intermediate damage subtotal are Python integers and are modelled as \<open>int\<close>;
  \<open>a // b\<close> on integers is \<open>div\<close>.  A Python float is an IEEE double and is
  modelled by the real number it stands for.

  Wherever the source floors, ceils or compares a float, the float operations that
  produce it are rounded as the machine rounds them: to the nearest double, ties to the
  even significand (\<open>double_of\<close>).  A double is \<open>m * 2 ^ j\<close> with an integer
  \<open>\<bar>m\<bar> < 2 ^ 53\<close>; \<open>expo x\<close> is the binary exponent of \<open>x\<close>, and the
  doubles around \<open>x\<close> are the multiples of \<open>2 ^ (expo x - 52)\<close>.  The exponent
  range of a double is not modelled: no overflow to infinity, no subnormal numbers.
  The sums and products of rates and potencies that are only returned, never floored or
  compared, are computed exactly.
\<close>

definition round_even :: "real \<Rightarrow> int" where
  "round_even x =
     (let f = \<lfloor>x\<rfloor>; d = x - of_int f
      in if d < 1 / 2 then f else if 1 / 2 < d then f + 1 else if even f then f else f + 1)"

definition expo :: "real \<Rightarrow> int" where
  "expo x = (if 1 \<le> \<bar>x\<bar> then bitlen \<lfloor>\<bar>x\<bar>\<rfloor> - 1 else - bitlen (\<lceil>1 / \<bar>x\<bar>\<rceil> - 1))"

definition double_of :: "real \<Rightarrow> real" where
  "double_of x =
     (if x = 0 then 0
      else of_int (round_even (x / 2 powi (expo x - 52))) * 2 powi (expo x - 52))"

text \<open>
  The float operations of Python on doubles, and the conversion of an integer operand
  that Python makes before it multiplies an integer by a float.  \<open>x % y\<close> on floats
  has the sign of the divisor; it is the double of \<open>x - y * floor(x / y)\<close>, which is
  the exact remainder whenever the two operands have the same sign.
\<close>

definition py_float :: "int \<Rightarrow> real" where
  "py_float n = double_of (of_int n)"

definition fadd :: "real \<Rightarrow> real \<Rightarrow> real" where
  "fadd x y = double_of (x + y)"

definition fsub :: "real \<Rightarrow> real \<Rightarrow> real" where
  "fsub x y = double_of (x - y)"

definition fmul :: "real \<Rightarrow> real \<Rightarrow> real" where
  "fmul x y = double_of (x * y)"

definition fdiv :: "real \<Rightarrow> real \<Rightarrow> real" where
  "fdiv x y = double_of (x / y)"

definition py_mod :: "real \<Rightarrow> real \<Rightarrow> real" where
  "py_mod x y = double_of (x - y * of_int \<lfloor>x / y\<rfloor>)"

section \<open>calc.py: stat descriptors\<close>

text \<open>
  The enum \<open>Stats\<close>; every member carries \<open>(base, m_factor, m_scalar)\<close>.
  The member \<open>GCD\<close> of the source is called \<open>GCD_stat\<close> here.
\<close>

datatype Stats = MAINSTAT | DET | CRIT | DH | SPEED | TEN | PIE | GCD_stat | PRECISION

fun base :: "Stats \<Rightarrow> int" where
  "base MAINSTAT = 340"
| "base DET = 340"
| "base CRIT = 380"
| "base DH = 380"
| "base SPEED = 380"
| "base TEN = 380"
| "base PIE = 340"
| "base GCD_stat = 2500"
| "base PRECISION = 1000"

fun m_factor :: "Stats \<Rightarrow> int" where
  "m_factor MAINSTAT = 165"
| "m_factor DET = 130"
| "m_factor CRIT = 200"
| "m_factor DH = 1250"
| "m_factor SPEED = 130"
| "m_factor TEN = 100"
| "m_factor PIE = 1"
| "m_factor GCD_stat = 1"
| "m_factor PRECISION = 1"

fun m_scalar :: "Stats \<Rightarrow> int" where
  "m_scalar MAINSTAT = 0"
| "m_scalar DET = 0"
| "m_scalar CRIT = 400"
| "m_scalar DH = 0"
| "m_scalar SPEED = 0"
| "m_scalar TEN = 0"
| "m_scalar PIE = 0"
| "m_scalar GCD_stat = 0"
| "m_scalar PRECISION = 0"

text \<open>
  Class \<open>Stat\<close>: a descriptor and the current value of the stat.  The field
  \<open>value\<close> of the source is called \<open>val\<close> here.
\<close>

record Stat =
  stat :: Stats
  val :: int

text \<open>
  \<open>Stat.get_multiplier\<close>.  The direct-hit guard comes first; otherwise the scaled
  delta is floor-divided by the magic number (340 for the main stat, 3300 for the rest)
  and the scalar is added to the quotient.  Python returns the float \<open>1.25\<close> in the
  first case and an integer in the second; the model returns a real in both.
\<close>

definition get_multiplier :: "'a Stat_scheme \<Rightarrow> real" where
  "get_multiplier self =
     (if stat self = DH then 1.25
      else
        let magic_num = (if stat self = MAINSTAT then 340 else 3300);
            delta = val self - base (stat self)
        in of_int (m_factor (stat self) * delta div magic_num + m_scalar (stat self)))"

text \<open>
  Class \<open>ProbabalisticStat\<close> extends \<open>Stat\<close> by the pair
  \<open>(p_factor, p_scalar)\<close>, looked up in the class dictionary \<open>crit_convert\<close> with
  the default \<open>DEFAULT_PSTATS\<close>.
\<close>

record ProbabalisticStat = Stat +
  p_factor :: int
  p_scalar :: int

definition crit_convert :: "Stats \<rightharpoonup> int \<times> int" where
  "crit_convert = [CRIT \<mapsto> (200, 50), DH \<mapsto> (550, 0)]"

definition DEFAULT_PSTATS :: "int \<times> int" where
  "DEFAULT_PSTATS = (1, 0)"

definition ProbabalisticStat_init :: "Stats \<Rightarrow> int \<Rightarrow> ProbabalisticStat" where
  "ProbabalisticStat_init st v =
     (let (pf, ps) = (case crit_convert st of None \<Rightarrow> DEFAULT_PSTATS | Some c \<Rightarrow> c)
      in \<lparr>stat = st, val = v, p_factor = pf, p_scalar = ps\<rparr>)"

definition get_p :: "ProbabalisticStat \<Rightarrow> real" where
  "get_p self =
     (let delta = val self - base (stat self)
      in of_int (p_factor self * delta div 3300 + p_scalar self) / of_int (base PRECISION))"

section \<open>calc.py: roles, buffs, jobs and the party composition\<close>

datatype Roles = TANK | HEALER | MELEE | RANGED | CASTER

text \<open>
  The enum \<open>Buffs\<close>; every member carries
  \<open>(multiplier, duration_sec, cooldown_sec)\<close>.  A Python \<open>Enum\<close> turns a member
  whose value equals that of an earlier member into an alias of the earlier one:
  \<open>DSIGHT_SELF\<close> has the value \<open>(0.1, 20, 120)\<close> of \<open>EMBOLDEN\<close> and
  \<open>DSIGHT_OTHER\<close> the value \<open>(0.05, 20, 120)\<close> of \<open>TECH\<close>, so both
  are names of those members and not members of their own.
\<close>

datatype Buffs =
    CHAIN | DIV | TRICK | LITANY | BROTHERHOOD | BV | BARD_CRIT | BARD_DH | TECH
  | DEVOTION | EMBOLDEN | CARD | LORD_LADY | DEVILMENT

abbreviation (input) DSIGHT_SELF :: Buffs where
  "DSIGHT_SELF \<equiv> EMBOLDEN"

abbreviation (input) DSIGHT_OTHER :: Buffs where
  "DSIGHT_OTHER \<equiv> TECH"

fun multiplier :: "Buffs \<Rightarrow> real" where
  "multiplier CHAIN = 0.1"
| "multiplier DIV = 0.06"
| "multiplier TRICK = 0.05"
| "multiplier LITANY = 0.1"
| "multiplier BROTHERHOOD = 0.05"
| "multiplier BV = 0.2"
| "multiplier BARD_CRIT = 0.02"
| "multiplier BARD_DH = 0.03"
| "multiplier TECH = 0.05"
| "multiplier DEVOTION = 0.05"
| "multiplier EMBOLDEN = 0.1"
| "multiplier CARD = 0.06"
| "multiplier LORD_LADY = 0.08"
| "multiplier DEVILMENT = 0.2"

fun duration_sec :: "Buffs \<Rightarrow> int" where
  "duration_sec CHAIN = 15"
| "duration_sec DIV = 15"
| "duration_sec TRICK = 15"
| "duration_sec LITANY = 20"
| "duration_sec BROTHERHOOD = 15"
| "duration_sec BV = 20"
| "duration_sec BARD_CRIT = 30"
| "duration_sec BARD_DH = 20"
| "duration_sec TECH = 20"
| "duration_sec DEVOTION = 15"
| "duration_sec EMBOLDEN = 20"
| "duration_sec CARD = 15"
| "duration_sec LORD_LADY = 15"
| "duration_sec DEVILMENT = 20"

fun cooldown_sec :: "Buffs \<Rightarrow> int" where
  "cooldown_sec CHAIN = 120"
| "cooldown_sec DIV = 120"
| "cooldown_sec TRICK = 60"
| "cooldown_sec LITANY = 180"
| "cooldown_sec BROTHERHOOD = 90"
| "cooldown_sec BV = 180"
| "cooldown_sec BARD_CRIT = 80"
| "cooldown_sec BARD_DH = 80"
| "cooldown_sec TECH = 120"
| "cooldown_sec DEVOTION = 180"
| "cooldown_sec EMBOLDEN = 120"
| "cooldown_sec CARD = 30"
| "cooldown_sec LORD_LADY = 30"
| "cooldown_sec DEVILMENT = 120"

definition crit_buffs :: "Buffs set" where
  "crit_buffs = {CHAIN, LITANY, DEVILMENT, BARD_CRIT}"

definition dh_buffs :: "Buffs set" where
  "dh_buffs = {BV, BARD_DH, DEVILMENT}"

definition avg_buff_effect :: "Buffs \<Rightarrow> real" where
  "avg_buff_effect self = multiplier self * of_int (duration_sec self) / of_int (cooldown_sec self)"

text \<open>
  The enum \<open>Jobs\<close>; every member carries \<open>(job_mod, role, raidbuff)\<close>.  By the
  aliasing rule above \<open>WAR\<close>, \<open>DRK\<close> and \<open>GNB\<close>, whose value
  \<open>(110, Roles.TANK, [])\<close> is that of \<open>PLD\<close>, are names of \<open>PLD\<close>.
\<close>

datatype Jobs =
    SCH | AST | WHM | PLD | NIN | DRG | MNK | SAM | MCH | DNC | BRD | SMN | BLM | RDM

abbreviation (input) WAR :: Jobs where
  "WAR \<equiv> PLD"

abbreviation (input) DRK :: Jobs where
  "DRK \<equiv> PLD"

abbreviation (input) GNB :: Jobs where
  "GNB \<equiv> PLD"

fun job_mod :: "Jobs \<Rightarrow> int" where
  "job_mod SCH = 115"
| "job_mod AST = 115"
| "job_mod WHM = 115"
| "job_mod PLD = 110"
| "job_mod NIN = 110"
| "job_mod DRG = 115"
| "job_mod MNK = 110"
| "job_mod SAM = 112"
| "job_mod MCH = 115"
| "job_mod DNC = 115"
| "job_mod BRD = 115"
| "job_mod SMN = 115"
| "job_mod BLM = 115"
| "job_mod RDM = 115"

fun role :: "Jobs \<Rightarrow> Roles" where
  "role SCH = HEALER"
| "role AST = HEALER"
| "role WHM = HEALER"
| "role PLD = TANK"
| "role NIN = MELEE"
| "role DRG = MELEE"
| "role MNK = MELEE"
| "role SAM = MELEE"
| "role MCH = RANGED"
| "role DNC = RANGED"
| "role BRD = RANGED"
| "role SMN = CASTER"
| "role BLM = CASTER"
| "role RDM = CASTER"

fun raidbuff :: "Jobs \<Rightarrow> Buffs list" where
  "raidbuff SCH = [CHAIN]"
| "raidbuff AST = [DIV]"
| "raidbuff WHM = []"
| "raidbuff PLD = []"
| "raidbuff NIN = [TRICK]"
| "raidbuff DRG = [LITANY]"
| "raidbuff MNK = [BROTHERHOOD]"
| "raidbuff SAM = []"
| "raidbuff MCH = []"
| "raidbuff DNC = [TECH]"
| "raidbuff BRD = [BV, BARD_CRIT, BARD_DH]"
| "raidbuff SMN = [DEVOTION]"
| "raidbuff BLM = []"
| "raidbuff RDM = [EMBOLDEN]"

text \<open>
  Class \<open>Comp\<close>.  \<open>raidbuffs\<close> is the Python set built from the chained buff
  lists, \<open>n_roles\<close> the length of the set of roles.
\<close>

record Comp =
  jobs :: "Jobs list"
  raidbuffs :: "Buffs set"
  n_roles :: nat

definition Comp_init :: "Jobs list \<Rightarrow> Comp" where
  "Comp_init js =
     \<lparr>jobs = js,
      raidbuffs = set (concat (map raidbuff js)),
      n_roles = card (set (map role js))\<rparr>"

section \<open>calc.py: the damage calculation\<close>

record CharacterStats =
  job :: Jobs
  wd :: int
  mainstat :: Stat
  det :: Stat
  crit :: ProbabalisticStat
  dh :: ProbabalisticStat
  speed :: Stat
  ten :: Stat
  pie :: Stat

definition CharacterStats_init ::
  "Jobs \<Rightarrow> int \<Rightarrow> int \<Rightarrow> int \<Rightarrow> int \<Rightarrow> int \<Rightarrow> int \<Rightarrow> int \<Rightarrow> int \<Rightarrow> CharacterStats" where
  "CharacterStats_init j w ms d c h s t p =
     \<lparr>job = j, wd = w,
      mainstat = \<lparr>stat = MAINSTAT, val = ms\<rparr>,
      det = \<lparr>stat = DET, val = d\<rparr>,
      crit = ProbabalisticStat_init CRIT c,
      dh = ProbabalisticStat_init DH h,
      speed = \<lparr>stat = SPEED, val = s\<rparr>,
      ten = \<lparr>stat = TEN, val = t\<rparr>,
      pie = \<lparr>stat = PIE, val = p\<rparr>\<rparr>"

text \<open>
  The class methods \<open>truncate\<close> (here \<open>truncate_factor\<close>),
  \<open>multiply_and_truncate\<close> and \<open>apply_stat\<close>; \<open>precision\<close> is always the
  default 1000 at the call sites.  In \<open>truncate\<close> the sum \<open>precision + val\<close> is
  exact for every value \<open>get_multiplier\<close> returns (an integer, or 1.25), so the
  quotient is rounded once.  \<open>multiply_and_truncate\<close> converts the integer damage to a
  float, multiplies two floats and floors the rounded product.
\<close>

definition truncate_factor :: "real \<Rightarrow> real \<Rightarrow> real" where
  "truncate_factor v precision = double_of ((precision + v) / precision)"

definition multiply_and_truncate :: "int \<Rightarrow> real \<Rightarrow> real \<Rightarrow> int" where
  "multiply_and_truncate v factor precision =
     \<lfloor>fmul (py_float v) (truncate_factor factor precision)\<rfloor>"

definition apply_stat :: "int \<Rightarrow> 'a Stat_scheme \<Rightarrow> int" where
  "apply_stat damage st = multiply_and_truncate damage (get_multiplier st) 1000"

text \<open>
  The loop over \<open>comp.raidbuffs\<close>.  \<open>buff_step\<close> is its body.  Python walks a
  set in an order it does not specify; the model walks it in the order of the enum, and
  the rates it ends with are the same for every other order (lemma
  \<open>party_buffs_any_order\<close> below).
\<close>

definition all_Buffs :: "Buffs list" where
  "all_Buffs =
     [CHAIN, DIV, TRICK, LITANY, BROTHERHOOD, BV, BARD_CRIT, BARD_DH, TECH,
      DEVOTION, EMBOLDEN, CARD, LORD_LADY, DEVILMENT]"

definition buff_step :: "Buffs \<Rightarrow> real \<times> real \<Rightarrow> real \<times> real" where
  "buff_step buff rates =
     (case rates of (crit_rate, dh_rate) \<Rightarrow>
        if buff \<in> crit_buffs then (crit_rate + avg_buff_effect buff, dh_rate)
        else if buff \<in> dh_buffs then (crit_rate, dh_rate + avg_buff_effect buff)
        else (crit_rate, dh_rate))"

definition party_buffs :: "Buffs set \<Rightarrow> real \<times> real \<Rightarrow> real \<times> real" where
  "party_buffs bs rates = fold buff_step (filter (\<lambda>b. b \<in> bs) all_Buffs) rates"

text \<open>
  The optional arguments \<open>crit_rate\<close> and \<open>dh_rate\<close> default to \<open>None\<close>.
  \<open>not r\<close> is true for \<open>None\<close> and for a zero.  The parameter \<open>comp\<close>
  of the source is called \<open>cmp\<close> here.  In the first assignment to
  \<open>damage\<close> the operator \<open>//\<close> acts on Python integers (the multiplier of the
  main stat is an integer); the model takes the floor of the exact quotient, which is the
  same number.  The literals \<open>0.01\<close> and \<open>1.3\<close> are the doubles nearest to them.
\<close>

definition py_not :: "real option \<Rightarrow> bool" where
  "py_not r = (case r of None \<Rightarrow> True | Some x \<Rightarrow> x = 0)"

definition calc_damage ::
  "CharacterStats \<Rightarrow> int \<Rightarrow> Comp \<Rightarrow> bool \<Rightarrow> real option \<Rightarrow> real option \<Rightarrow> real" where
  "calc_damage self potency cmp is_dot crit_rate dh_rate =
     (let modified_mainstat =
            \<lparr>stat = MAINSTAT,
             val = \<lfloor>fmul (py_float (val (mainstat self)))
                      (fadd 1 (fmul (double_of 0.01) (py_float (int (n_roles cmp)))))\<rfloor>\<rparr>;
          damage =
            \<lfloor>of_int (potency * (wd self + 340 * job_mod (job self) div 1000))
               * (100 + get_multiplier modified_mainstat) / 100\<rfloor>;
          damage = apply_stat damage (det self);
          damage = apply_stat damage (ten self);
          damage = (if is_dot then apply_stat damage (speed self) else damage);
          damage = damage div 100;
          damage = (if role (job self) = HEALER then \<lfloor>fmul (py_float damage) (double_of 1.3)\<rfloor> else damage);
          crit_damage = apply_stat damage (crit self);
          dh_damage = damage * m_factor (stat (dh self)) div 1000;
          cdh_damage = crit_damage * m_factor (stat (dh self)) div 1000;
          crit_rate = (if py_not crit_rate then get_p (crit self) else the crit_rate);
          dh_rate = (if py_not dh_rate then get_p (dh self) else the dh_rate);
          (crit_rate, dh_rate) = party_buffs (raidbuffs cmp) (crit_rate, dh_rate);
          cdh_rate = crit_rate * dh_rate;
          normal_rate = 1 - crit_rate - dh_rate + cdh_rate
      in of_int damage * normal_rate + of_int crit_damage * (crit_rate - cdh_rate)
         + of_int dh_damage * (dh_rate - cdh_rate) + of_int cdh_damage * cdh_rate)"

text \<open>
  The stages of \<open>calc_damage\<close>, named so that statements can refer to them:
  the subtotal of the \<open>damage = potency * ...\<close> assignment, the damage \<open>D\<close> left
  after the trait adjustment, the rates chosen before the buff loop, the rates after it,
  and the weighted sum that is returned.  Lemma \<open>calc_damage_stages\<close> below shows
  that \<open>calc_damage\<close> is their composition.
\<close>

definition base_damage :: "CharacterStats \<Rightarrow> int \<Rightarrow> Comp \<Rightarrow> int" where
  "base_damage self potency cmp =
     (let modified_mainstat =
            \<lparr>stat = MAINSTAT,
             val = \<lfloor>fmul (py_float (val (mainstat self)))
                      (fadd 1 (fmul (double_of 0.01) (py_float (int (n_roles cmp)))))\<rfloor>\<rparr>
      in \<lfloor>of_int (potency * (wd self + 340 * job_mod (job self) div 1000))
            * (100 + get_multiplier modified_mainstat) / 100\<rfloor>)"

definition after_stats :: "CharacterStats \<Rightarrow> bool \<Rightarrow> int \<Rightarrow> int" where
  "after_stats self is_dot damage =
     (let damage = apply_stat damage (ten self);
          damage = (if is_dot then apply_stat damage (speed self) else damage);
          damage = damage div 100
      in if role (job self) = HEALER then \<lfloor>fmul (py_float damage) (double_of 1.3)\<rfloor> else damage)"

definition trait_damage :: "CharacterStats \<Rightarrow> int \<Rightarrow> Comp \<Rightarrow> bool \<Rightarrow> int" where
  "trait_damage self potency cmp is_dot =
     after_stats self is_dot (apply_stat (base_damage self potency cmp) (det self))"

definition start_rates :: "CharacterStats \<Rightarrow> real option \<Rightarrow> real option \<Rightarrow> real \<times> real" where
  "start_rates self crit_rate dh_rate =
     (if py_not crit_rate then get_p (crit self) else the crit_rate,
      if py_not dh_rate then get_p (dh self) else the dh_rate)"

definition final_rates ::
  "CharacterStats \<Rightarrow> Comp \<Rightarrow> real option \<Rightarrow> real option \<Rightarrow> real \<times> real" where
  "final_rates self cmp crit_rate dh_rate =
     party_buffs (raidbuffs cmp) (start_rates self crit_rate dh_rate)"

definition normal_rate_of :: "real \<times> real \<Rightarrow> real" where
  "normal_rate_of rates =
     (case rates of (crit_rate, dh_rate) \<Rightarrow> 1 - crit_rate - dh_rate + crit_rate * dh_rate)"

definition weighted_damage :: "CharacterStats \<Rightarrow> int \<Rightarrow> real \<times> real \<Rightarrow> real" where
  "weighted_damage self damage rates =
     (case rates of (crit_rate, dh_rate) \<Rightarrow>
        let crit_damage = apply_stat damage (crit self);
            dh_damage = damage * m_factor (stat (dh self)) div 1000;
            cdh_damage = crit_damage * m_factor (stat (dh self)) div 1000;
            cdh_rate = crit_rate * dh_rate;
            normal_rate = 1 - crit_rate - dh_rate + cdh_rate
        in of_int damage * normal_rate + of_int crit_damage * (crit_rate - cdh_rate)
           + of_int dh_damage * (dh_rate - cdh_rate) + of_int cdh_damage * cdh_rate)"

section \<open>The damage pipeline in the words of the specification\<close>

text \<open>
  A second definition, written from the specification: integer arithmetic with floor
  division for the subtotal, \<open>floor(damage * (1 + multiplier / 1000))\<close> for every stat
  that is applied, and the probability-weighted sum of the four outcomes.  The formulas
  of the specification are exact: nothing is rounded before a floor.
\<close>

definition spec_mainstat_multiplier :: "int \<Rightarrow> nat \<Rightarrow> int" where
  "spec_mainstat_multiplier ms nroles =
     165 * (\<lfloor>real_of_int ms * (1 + 0.01 * real nroles)\<rfloor> - 340) div 340 + 0"

definition spec_subtotal :: "int \<Rightarrow> int \<Rightarrow> int \<Rightarrow> int \<Rightarrow> int" where
  "spec_subtotal potency wdmg jmod mm =
     potency * (wdmg + 340 * jmod div 1000) * (100 + mm) div 100"

definition spec_multiplier :: "int \<Rightarrow> int \<Rightarrow> int \<Rightarrow> int \<Rightarrow> int" where
  "spec_multiplier factor bas scalar v = factor * (v - bas) div 3300 + scalar"

definition spec_apply_stat :: "int \<Rightarrow> int \<Rightarrow> int" where
  "spec_apply_stat damage m = \<lfloor>real_of_int damage * (1 + real_of_int m / 1000)\<rfloor>"

definition spec_D :: "Jobs \<Rightarrow> int \<Rightarrow> int \<Rightarrow> int \<Rightarrow> int \<Rightarrow> int \<Rightarrow> int \<Rightarrow> nat \<Rightarrow> bool \<Rightarrow> int" where
  "spec_D j wdmg ms d s t potency nroles is_dot =
     (let d0 = spec_subtotal potency wdmg (job_mod j) (spec_mainstat_multiplier ms nroles);
          d1 = spec_apply_stat d0 (spec_multiplier 130 340 0 d);
          d2 = spec_apply_stat d1 (spec_multiplier 100 380 0 t);
          d3 = (if is_dot then spec_apply_stat d2 (spec_multiplier 130 380 0 s) else d2);
          d4 = d3 div 100
      in if role j = HEALER then \<lfloor>real_of_int d4 * 1.3\<rfloor> else d4)"

definition spec_weighted_sum :: "int \<Rightarrow> int \<Rightarrow> real \<Rightarrow> real \<Rightarrow> real" where
  "spec_weighted_sum D c critRate dhRate =
     (let cdhRate = critRate * dhRate;
          normalRate = 1 - critRate - dhRate + cdhRate;
          critDamage = spec_apply_stat D (spec_multiplier 200 380 400 c);
          dhDamage = D * 1250 div 1000;
          cdhDamage = critDamage * 1250 div 1000
      in of_int D * normalRate + of_int critDamage * (critRate - cdhRate)
         + of_int dhDamage * (dhRate - cdhRate) + of_int cdhDamage * cdhRate)"

section \<open>pps/sch.py: the scholar rotation\<close>

text \<open>
  \<open>SchPps\<close> reads the character through \<open>character_stats.get_gcd()\<close> and
  \<open>character_stats.get_dot_scalar()\<close>.  Class \<open>CharacterStats\<close> of calc.py defines
  neither method, so the two floats they return are taken as they come, in a record.
  The \<open>print\<close> calls of the source write to standard output and do not change the
  result; they are left out.  Python raises \<open>ZeroDivisionError\<close> on \<open>%\<close> and
  \<open>/\<close> by zero.

  The source writes the expressions \<open>30 - 2 * short_gcd\<close> and
  \<open>short_gcd + caster_tax\<close> several times; they are \<open>budget\<close> and \<open>slot\<close>
  here, rounded as the machine rounds them, since their remainder is compared with 1.5
  and their quotient is floored or ceiled.
\<close>

datatype py_error = ZeroDivisionError

record pps_stats =
  get_gcd :: real
  get_dot_scalar :: real

definition r2_potency :: real where "r2_potency = 200"
definition b3_potency :: real where "b3_potency = 290"
definition bio_potency :: real where "bio_potency = 70"
definition ed_potency :: real where "ed_potency = 100"

definition budget :: "real \<Rightarrow> real" where
  "budget short_gcd = fsub 30 (fmul 2 short_gcd)"

definition slot :: "real \<Rightarrow> real \<Rightarrow> real" where
  "slot short_gcd caster_tax = fadd short_gcd caster_tax"

definition total_potency_spreadsheet_port ::
  "pps_stats \<Rightarrow> real \<Rightarrow> real \<Rightarrow> real \<Rightarrow> py_error + real" where
  "total_potency_spreadsheet_port character_stats caster_tax ed_per_min num_filler_casts =
     (let short_gcd = get_gcd character_stats;
          result = 0;
          result = result + 3 * ed_potency * ed_per_min;
          sps_scalar = get_dot_scalar character_stats
      in if slot short_gcd caster_tax = 0 then Inl ZeroDivisionError
         else
           let result =
                 (if py_mod (budget short_gcd) (slot short_gcd caster_tax) > 1.5 then
                    let result = result
                          + 6 * of_int \<lceil>fdiv (budget short_gcd) (slot short_gcd caster_tax)\<rceil>
                              * b3_potency
                          + 2 * b3_potency + 4 * r2_potency
                    in result + 6 * 10 * sps_scalar * bio_potency
                  else
                    let result = result
                          + 6 * of_int \<lfloor>fdiv (budget short_gcd) (slot short_gcd caster_tax)\<rfloor>
                              * b3_potency
                          + 2 * b3_potency + 4 * r2_potency;
                        total_bio = 6 * 9 * sps_scalar * bio_potency;
                        result = result + total_bio;
                        weird_fractional_bio_tick =
                          6 * ((3 - py_mod (budget short_gcd) (slot short_gcd caster_tax)) / 3)
                            * sps_scalar * bio_potency
                    in result + weird_fractional_bio_tick)
           in Inr (result - 3 * num_filler_casts * b3_potency))"

definition get_cycle :: "pps_stats \<Rightarrow> real \<Rightarrow> py_error + real" where
  "get_cycle character_stats caster_tax =
     (let short_gcd = get_gcd character_stats;
          result = 0
      in if slot short_gcd caster_tax = 0 then Inl ZeroDivisionError
         else if py_mod (budget short_gcd) (slot short_gcd caster_tax) > 1.5 then
           Inr (result
                + 6 * (2 * short_gcd
                       + of_int \<lceil>fdiv (budget short_gcd) (slot short_gcd caster_tax)\<rceil>
                         * (short_gcd + caster_tax))
                - 1 * caster_tax)
         else
           Inr (result
                + 6 * (2 * short_gcd
                       + of_int \<lfloor>fdiv (budget short_gcd) (slot short_gcd caster_tax)\<rfloor>
                         * (short_gcd + caster_tax))
                - 1 * caster_tax))"

text \<open>
  \<open>get_pps\<close>: the total is computed first, then the cycle, then the quotient.  The
  defaults of the source are \<open>caster_tax = 0.12\<close>, \<open>num_ed_per_min = 4\<close> and
  \<open>num_filler_casts = 0\<close>.
\<close>

definition get_pps :: "pps_stats \<Rightarrow> real \<Rightarrow> real \<Rightarrow> real \<Rightarrow> py_error + real" where
  "get_pps character_stats caster_tax num_ed_per_min num_filler_casts =
     (case total_potency_spreadsheet_port character_stats caster_tax num_ed_per_min
             num_filler_casts of
        Inl e \<Rightarrow> Inl e
      | Inr tot \<Rightarrow>
          (case get_cycle character_stats caster_tax of
             Inl e \<Rightarrow> Inl e
           | Inr cycle \<Rightarrow> if cycle = 0 then Inl ZeroDivisionError else Inr (tot / cycle)))"

section \<open>Properties of the double model\<close>

text \<open>
  Rounding to a double keeps the sign, is monotone, and leaves a double as it is.
\<close>

lemma round_even_of_int: "round_even (of_int n) = n"
  by (simp add: round_even_def)

lemma round_even_floor_le: "\<lfloor>x\<rfloor> \<le> round_even x"
  by (simp add: round_even_def Let_def)

lemma round_even_le_floor_Suc: "round_even x \<le> \<lfloor>x\<rfloor> + 1"
  by (simp add: round_even_def Let_def)

lemma round_even_ge:
  assumes "of_int n \<le> x"
  shows "n \<le> round_even x"
proof -
  have "n \<le> \<lfloor>x\<rfloor>" using assms by (simp add: le_floor_iff)
  with round_even_floor_le [of x] show ?thesis by linarith
qed

lemma round_even_le:
  assumes "x \<le> of_int n"
  shows "round_even x \<le> n"
proof (cases "x = of_int \<lfloor>x\<rfloor>")
  case True
  then have "round_even x = \<lfloor>x\<rfloor>" by (metis round_even_of_int)
  moreover have "\<lfloor>x\<rfloor> \<le> n" using assms by (simp add: floor_le_iff)
  ultimately show ?thesis by simp
next
  case False
  then have "of_int \<lfloor>x\<rfloor> < x" using of_int_floor_le [of x] by linarith
  with assms have "\<lfloor>x\<rfloor> < n" by (metis less_le_trans of_int_less_iff)
  with round_even_le_floor_Suc [of x] show ?thesis by linarith
qed

lemma round_even_mono:
  assumes "x \<le> y"
  shows "round_even x \<le> round_even y"
proof (cases "\<lfloor>x\<rfloor> = \<lfloor>y\<rfloor>")
  case True
  then have "x - of_int \<lfloor>x\<rfloor> \<le> y - of_int \<lfloor>y\<rfloor>" using assms by simp
  with True show ?thesis by (auto simp: round_even_def Let_def)
next
  case False
  moreover have "\<lfloor>x\<rfloor> \<le> \<lfloor>y\<rfloor>" using assms by (rule floor_mono)
  ultimately have "\<lfloor>x\<rfloor> + 1 \<le> \<lfloor>y\<rfloor>" by linarith
  with round_even_le_floor_Suc [of x] round_even_floor_le [of y] show ?thesis by linarith
qed

lemma two_powi_neg: "0 \<le> k \<Longrightarrow> (2::real) powi (- k) = 1 / 2 ^ nat k"
  by (cases "k = 0") (simp_all add: power_int_def field_simps)

lemma expo_bounds:
  assumes "x \<noteq> 0"
  shows "2 powi expo x \<le> \<bar>x\<bar>" and "\<bar>x\<bar> < 2 powi (expo x + 1)"
proof -
  have "2 powi expo x \<le> \<bar>x\<bar> \<and> \<bar>x\<bar> < 2 powi (expo x + 1)"
  proof (cases "1 \<le> \<bar>x\<bar>")
    case True
    let ?n = "\<lfloor>\<bar>x\<bar>\<rfloor>"
    have n: "0 < ?n" using True by simp
    then have b: "0 < bitlen ?n" using bitlen_eq_zero_iff [of ?n] bitlen_nonneg [of ?n] by linarith
    from bitlen_bounds [OF n]
    have lo: "2 ^ nat (bitlen ?n - 1) \<le> ?n" and hi: "?n < 2 ^ nat (bitlen ?n)" by simp_all
    have "(2::real) ^ nat (bitlen ?n - 1) \<le> of_int ?n"
      using lo by (metis of_int_le_iff of_int_numeral of_int_power)
    also have "\<dots> \<le> \<bar>x\<bar>" by simp
    finally have 1: "(2::real) powi (bitlen ?n - 1) \<le> \<bar>x\<bar>"
      using b by (simp add: power_int_def)
    have "?n + 1 \<le> 2 ^ nat (bitlen ?n)" using hi by simp
    then have "of_int (?n + 1) \<le> (2::real) ^ nat (bitlen ?n)"
      by (metis of_int_le_iff of_int_numeral of_int_power)
    moreover have "\<bar>x\<bar> < of_int (?n + 1)" by linarith
    ultimately have "\<bar>x\<bar> < (2::real) ^ nat (bitlen ?n)" by linarith
    then have 2: "\<bar>x\<bar> < (2::real) powi (bitlen ?n - 1 + 1)"
      using b by (simp add: power_int_def)
    from 1 2 True show ?thesis by (simp add: expo_def)
  next
    case False
    let ?y = "1 / \<bar>x\<bar>"
    let ?m = "\<lceil>?y\<rceil> - 1"
    have xp: "0 < \<bar>x\<bar>" using assms by simp
    have x1: "\<bar>x\<bar> < 1" using False by simp
    have y1: "1 < ?y" using xp x1 by simp
    then have m: "0 < ?m" by (simp add: less_ceiling_iff)
    then have b: "0 < bitlen ?m" using bitlen_eq_zero_iff [of ?m] bitlen_nonneg [of ?m] by linarith
    from bitlen_bounds [OF m]
    have lo: "2 ^ nat (bitlen ?m - 1) \<le> ?m" and hi: "?m < 2 ^ nat (bitlen ?m)" by simp_all
    have my: "of_int ?m < ?y" by linarith
    have ym: "?y \<le> of_int (?m + 1)" by simp
    have "?m + 1 \<le> 2 ^ nat (bitlen ?m)" using hi by simp
    then have "of_int (?m + 1) \<le> (2::real) ^ nat (bitlen ?m)"
      by (metis of_int_le_iff of_int_numeral of_int_power)
    with ym have "?y \<le> (2::real) ^ nat (bitlen ?m)" by linarith
    then have "1 \<le> (2::real) ^ nat (bitlen ?m) * \<bar>x\<bar>"
      using xp by (simp add: field_simps)
    then have "1 / (2::real) ^ nat (bitlen ?m) \<le> \<bar>x\<bar>"
      by (simp add: field_simps)
    then have 1: "(2::real) powi (- bitlen ?m) \<le> \<bar>x\<bar>"
      using b by (simp add: power_int_def field_simps)
    have "(2::real) ^ nat (bitlen ?m - 1) \<le> of_int ?m"
      using lo by (metis of_int_le_iff of_int_numeral of_int_power)
    with my have "(2::real) ^ nat (bitlen ?m - 1) < ?y" by linarith
    then have "(2::real) ^ nat (bitlen ?m - 1) * \<bar>x\<bar> < 1"
      using xp by (simp add: field_simps)
    then have "\<bar>x\<bar> < 1 / (2::real) ^ nat (bitlen ?m - 1)"
      by (simp add: field_simps)
    moreover have "(2::real) powi (- bitlen ?m + 1) = 1 / 2 ^ nat (bitlen ?m - 1)"
    proof -
      have e: "- bitlen ?m + 1 = - (bitlen ?m - 1)" by simp
      have "0 \<le> bitlen ?m - 1" using b by simp
      then show ?thesis unfolding e by (rule two_powi_neg)
    qed
    ultimately have 2: "\<bar>x\<bar> < (2::real) powi (- bitlen ?m + 1)" by simp
    from 1 2 False show ?thesis by (simp add: expo_def)
  qed
  then show "2 powi expo x \<le> \<bar>x\<bar>" and "\<bar>x\<bar> < 2 powi (expo x + 1)" by simp_all
qed


lemma expo_unique:
  assumes "2 powi k \<le> \<bar>x\<bar>" and "\<bar>x\<bar> < 2 powi (k + 1)"
  shows "expo x = k"
proof -
  have "(0::real) < 2 powi k" by simp
  with assms(1) have "0 < \<bar>x\<bar>" by linarith
  then have x: "x \<noteq> 0" by simp
  note b = expo_bounds [OF x]
  have "\<not> expo x < k"
  proof
    assume "expo x < k"
    then have "(2::real) powi (expo x + 1) \<le> 2 powi k"
      by (intro power_int_increasing) simp_all
    with b(2) assms(1) show False by linarith
  qed
  moreover have "\<not> k < expo x"
  proof
    assume "k < expo x"
    then have "(2::real) powi (k + 1) \<le> 2 powi expo x"
      by (intro power_int_increasing) simp_all
    with b(1) assms(2) show False by linarith
  qed
  ultimately show ?thesis by linarith
qed

lemma two_powi_split: "(2::real) powi e = 2 ^ 52 * 2 powi (e - 52)"
proof -
  have "(2::real) powi e = 2 powi (52 + (e - 52))" by simp
  also have "\<dots> = 2 powi 52 * 2 powi (e - 52)" by (subst power_int_add) simp_all
  finally show ?thesis by simp
qed

lemma two_powi_split': "(2::real) powi (e + 1) = 2 ^ 53 * 2 powi (e - 52)"
proof -
  have "e + 1 = 53 + (e - 52)" by simp
  then have "(2::real) powi (e + 1) = 2 powi (53 + (e - 52))" by (rule arg_cong)
  also have "\<dots> = 2 powi 53 * 2 powi (e - 52)" by (subst power_int_add) simp_all
  finally show ?thesis by simp
qed

lemma double_of_pos_bounds:
  assumes "0 < x"
  shows "2 powi expo x \<le> double_of x" and "double_of x \<le> 2 powi (expo x + 1)"
proof -
  let ?u = "(2::real) powi (expo x - 52)"
  have u: "0 < ?u" by simp
  have x: "x \<noteq> 0" using assms by simp
  have ax: "\<bar>x\<bar> = x" using assms by simp
  from expo_bounds [OF x] have "2 powi expo x \<le> x" and "x < 2 powi (expo x + 1)"
    unfolding ax by simp_all
  then have lo: "2 ^ 52 * ?u \<le> x" and hi: "x < 2 ^ 53 * ?u"
    by (simp_all only: two_powi_split [symmetric] two_powi_split' [symmetric])
  have "real_of_int (2 ^ 52) \<le> x / ?u" using lo u by (simp add: field_simps)
  then have "2 ^ 52 \<le> round_even (x / ?u)" by (rule round_even_ge)
  then have "real_of_int (2 ^ 52) \<le> of_int (round_even (x / ?u))" by (simp only: of_int_le_iff)
  then have "real_of_int (2 ^ 52) * ?u \<le> of_int (round_even (x / ?u)) * ?u"
    using u by (intro mult_right_mono) simp_all
  then show "2 powi expo x \<le> double_of x"
    using x by (simp add: double_of_def two_powi_split [of "expo x"])
  have "x / ?u \<le> real_of_int (2 ^ 53)" using hi u by (simp add: field_simps)
  then have "round_even (x / ?u) \<le> 2 ^ 53" by (rule round_even_le)
  then have "real_of_int (round_even (x / ?u)) \<le> of_int (2 ^ 53)" by (simp only: of_int_le_iff)
  then have "of_int (round_even (x / ?u)) * ?u \<le> real_of_int (2 ^ 53) * ?u"
    using u by (intro mult_right_mono) simp_all
  then show "double_of x \<le> 2 powi (expo x + 1)"
    using x by (simp add: double_of_def two_powi_split' [of "expo x"])
qed

lemma double_of_neg_bounds:
  assumes "x < 0"
  shows "- (2 powi (expo x + 1)) \<le> double_of x" and "double_of x \<le> - (2 powi expo x)"
proof -
  let ?u = "(2::real) powi (expo x - 52)"
  have u: "0 < ?u" by simp
  have x: "x \<noteq> 0" using assms by simp
  have ax: "\<bar>x\<bar> = - x" using assms by simp
  from expo_bounds [OF x] have "2 powi expo x \<le> - x" and "- x < 2 powi (expo x + 1)"
    unfolding ax by simp_all
  then have lo: "2 ^ 52 * ?u \<le> - x" and hi: "- x < 2 ^ 53 * ?u"
    by (simp_all only: two_powi_split [symmetric] two_powi_split' [symmetric])
  have "x / ?u \<le> real_of_int (- (2 ^ 52))" using lo u by (simp add: field_simps)
  then have "round_even (x / ?u) \<le> - (2 ^ 52)" by (rule round_even_le)
  then have "real_of_int (round_even (x / ?u)) \<le> of_int (- (2 ^ 52))" by (simp only: of_int_le_iff)
  then have "of_int (round_even (x / ?u)) * ?u \<le> real_of_int (- (2 ^ 52)) * ?u"
    using u by (intro mult_right_mono) simp_all
  then show "double_of x \<le> - (2 powi expo x)"
    using x by (simp add: double_of_def two_powi_split [of "expo x"])
  have "real_of_int (- (2 ^ 53)) \<le> x / ?u" using hi u by (simp add: field_simps)
  then have "- (2 ^ 53) \<le> round_even (x / ?u)" by (rule round_even_ge)
  then have "real_of_int (- (2 ^ 53)) \<le> of_int (round_even (x / ?u))" by (simp only: of_int_le_iff)
  then have "real_of_int (- (2 ^ 53)) * ?u \<le> of_int (round_even (x / ?u)) * ?u"
    using u by (intro mult_right_mono) simp_all
  then show "- (2 powi (expo x + 1)) \<le> double_of x"
    using x by (simp add: double_of_def two_powi_split' [of "expo x"])
qed

lemma double_of_zero: "double_of 0 = 0"
  by (simp add: double_of_def)

lemma double_of_pos: "0 < x \<Longrightarrow> 0 < double_of x"
proof -
  assume "0 < x"
  from double_of_pos_bounds(1) [OF this] have "2 powi expo x \<le> double_of x" .
  moreover have "(0::real) < 2 powi expo x" by simp
  ultimately show ?thesis by linarith
qed

lemma double_of_neg: "x < 0 \<Longrightarrow> double_of x < 0"
proof -
  assume "x < 0"
  from double_of_neg_bounds(2) [OF this] have "double_of x \<le> - (2 powi expo x)" .
  moreover have "(0::real) < 2 powi expo x" by simp
  ultimately show ?thesis by linarith
qed

lemma double_of_nonneg: "0 \<le> x \<Longrightarrow> 0 \<le> double_of x"
  using double_of_pos [of x] by (cases "x = 0") (simp_all add: double_of_zero)

lemma expo_mono:
  assumes "x \<noteq> 0" and "\<bar>x\<bar> \<le> \<bar>y\<bar>"
  shows "expo x \<le> expo y"
proof (rule ccontr)
  assume "\<not> expo x \<le> expo y"
  then have "expo y + 1 \<le> expo x" by simp
  then have "(2::real) powi (expo y + 1) \<le> 2 powi expo x"
    by (intro power_int_increasing) simp_all
  moreover have y: "y \<noteq> 0" using assms by auto
  ultimately show False
    using expo_bounds(1) [OF assms(1)] expo_bounds(2) [OF y] assms(2) by linarith
qed

lemma double_of_mono_same_expo:
  assumes "x \<noteq> 0" and "y \<noteq> 0" and "expo x = expo y" and "x \<le> y"
  shows "double_of x \<le> double_of y"
proof -
  let ?u = "(2::real) powi (expo y - 52)"
  have u: "0 < ?u" by simp
  have "x / ?u \<le> y / ?u" using assms(4) u by (simp add: divide_right_mono)
  then have "round_even (x / ?u) \<le> round_even (y / ?u)" by (rule round_even_mono)
  then have "real_of_int (round_even (x / ?u)) \<le> of_int (round_even (y / ?u))" by simp
  then have "of_int (round_even (x / ?u)) * ?u \<le> of_int (round_even (y / ?u)) * ?u"
    using u by (intro mult_right_mono) simp_all
  then show ?thesis using assms(1-3) by (simp add: double_of_def)
qed

lemma double_of_mono:
  assumes "x \<le> y"
  shows "double_of x \<le> double_of y"
proof -
  consider "x \<le> 0" "0 \<le> y" | "0 < x" | "y < 0" by linarith
  then show ?thesis
  proof cases
    case 1
    have "double_of x \<le> 0"
      using double_of_neg [of x] 1(1) by (cases "x = 0") (simp_all add: double_of_zero)
    with double_of_nonneg [OF 1(2)] show ?thesis by linarith
  next
    case 2
    then have y: "0 < y" using assms by linarith
    have le: "expo x \<le> expo y" using 2 y assms by (intro expo_mono) simp_all
    show ?thesis
    proof (cases "expo x = expo y")
      case True
      with 2 y assms show ?thesis by (intro double_of_mono_same_expo) simp_all
    next
      case False
      with le have "expo x + 1 \<le> expo y" by simp
      then have "(2::real) powi (expo x + 1) \<le> 2 powi expo y"
        by (intro power_int_increasing) simp_all
      with double_of_pos_bounds(2) [OF 2] double_of_pos_bounds(1) [OF y]
      show ?thesis by linarith
    qed
  next
    case 3
    then have x: "x < 0" using assms by linarith
    have le: "expo y \<le> expo x" using 3 x assms by (intro expo_mono) simp_all
    show ?thesis
    proof (cases "expo x = expo y")
      case True
      with 3 x assms show ?thesis by (intro double_of_mono_same_expo) simp_all
    next
      case False
      with le have "expo y + 1 \<le> expo x" by simp
      then have "(2::real) powi (expo y + 1) \<le> 2 powi expo x"
        by (intro power_int_increasing) simp_all
      with double_of_neg_bounds(2) [OF x] double_of_neg_bounds(1) [OF 3]
      show ?thesis by linarith
    qed
  qed
qed

lemma double_of_eqI:
  assumes "2 powi k \<le> \<bar>x\<bar>" and "\<bar>x\<bar> < 2 powi (k + 1)"
    and "round_even (x / 2 powi (k - 52)) = n"
  shows "double_of x = of_int n * 2 powi (k - 52)"
proof -
  have "(0::real) < 2 powi k" by simp
  with assms(1) have "0 < \<bar>x\<bar>" by linarith
  then have x: "x \<noteq> 0" by simp
  from expo_unique [OF assms(1,2)] assms(3) x show ?thesis by (simp add: double_of_def)
qed

lemma double_of_representable:
  assumes "\<bar>m\<bar> < 2 ^ 53"
  shows "double_of (of_int m * 2 powi j) = of_int m * 2 powi j"
proof (cases "m = 0")
  case True
  then show ?thesis by (simp add: double_of_zero)
next
  case False
  let ?x = "real_of_int m * 2 powi j"
  let ?e = "expo ?x"
  have x: "?x \<noteq> 0" using False by simp
  have "\<bar>?x\<bar> = \<bar>real_of_int m\<bar> * 2 powi j" by (simp add: abs_mult)
  also have "\<dots> < 2 ^ 53 * 2 powi j"
  proof -
    have "\<bar>real_of_int m\<bar> < 2 ^ 53" using assms by (metis of_int_abs of_int_less_iff of_int_numeral of_int_power)
    then show ?thesis by (intro mult_strict_right_mono) simp_all
  qed
  also have "\<dots> = 2 powi (53 + j)" by (subst power_int_add) simp_all
  finally have "\<bar>?x\<bar> < 2 powi (53 + j)" .
  with expo_bounds(1) [OF x] have "(2::real) powi ?e < 2 powi (53 + j)" by linarith
  have "?e < 53 + j"
  proof (rule ccontr)
    assume "\<not> ?e < 53 + j"
    then have "53 + j \<le> ?e" by simp
    then have "(2::real) powi (53 + j) \<le> 2 powi ?e"
      by (intro power_int_increasing) simp_all
    with \<open>(2::real) powi ?e < 2 powi (53 + j)\<close> show False by linarith
  qed
  then have d: "0 \<le> j - ?e + 52" by simp
  have "?x / 2 powi (?e - 52) = real_of_int m * (2 powi j / 2 powi (?e - 52))" by simp
  also have "2 powi j / (2::real) powi (?e - 52) = 2 powi (j - ?e + 52)"
    by (simp add: power_int_diff [symmetric] algebra_simps)
  also have "\<dots> = 2 ^ nat (j - ?e + 52)" using d by (simp add: power_int_nonneg_exp)
  finally have "?x / 2 powi (?e - 52) = real_of_int (m * 2 ^ nat (j - ?e + 52))" by simp
  then have r: "round_even (?x / 2 powi (?e - 52)) = m * 2 ^ nat (j - ?e + 52)"
    by (simp only: round_even_of_int)
  have "double_of ?x = of_int (m * 2 ^ nat (j - ?e + 52)) * 2 powi (?e - 52)"
    using x r by (simp add: double_of_def)
  also have "\<dots> = real_of_int m * (2 ^ nat (j - ?e + 52) * 2 powi (?e - 52))" by simp
  also have "(2::real) ^ nat (j - ?e + 52) = 2 powi (j - ?e + 52)"
    using d by (simp add: power_int_nonneg_exp)
  also have "(2::real) powi (j - ?e + 52) * 2 powi (?e - 52) = 2 powi j"
    by (simp add: power_int_add [symmetric])
  finally show ?thesis .
qed

lemma double_of_int: "\<bar>m\<bar> < 2 ^ 53 \<Longrightarrow> double_of (of_int m) = of_int m"
  using double_of_representable [of m 0] by simp

section \<open>Properties of the stat model\<close>

text \<open>
  C4 (as stated, for every stat kind) fails at the direct-hit stat: at its base value 380
  the guard returns 1.25, while the descriptor's \<open>m_scalar\<close> is 0.
\<close>

theorem C4_direct_hit_at_base_counterexample:
  "get_multiplier \<lparr>stat = DH, val = base DH\<rparr> \<noteq> of_int (m_scalar DH)"
  by (simp add: get_multiplier_def)

text \<open>
  C4 (amended): for every stat of a kind other than direct hit, whose value equals the
  descriptor's base, \<open>get_multiplier\<close> returns exactly the descriptor's
  \<open>m_scalar\<close>.
\<close>

theorem C4_multiplier_at_base:
  "stat s \<noteq> DH \<Longrightarrow> val s = base (stat s) \<Longrightarrow> get_multiplier s = of_int (m_scalar (stat s))"
  by (simp add: get_multiplier_def)

theorem C4_multiplier_at_base_witness:
  "stat \<lparr>stat = DET, val = 340\<rparr> \<noteq> DH \<and>
   val \<lparr>stat = DET, val = 340\<rparr> = base (stat \<lparr>stat = DET, val = 340\<rparr>) \<and>
   get_multiplier \<lparr>stat = DET, val = 340\<rparr> = 0"
  using C4_multiplier_at_base [of "\<lparr>stat = DET, val = 340\<rparr>"] by simp

text \<open>
  C6: on a direct-hit stat \<open>get_multiplier\<close> is the constant 1.25 for every value
  (0 included); on the main stat it is \<open>m_factor * (value - base) // 340 + m_scalar\<close>;
  on every other kind it is \<open>m_factor * (value - base) // 3300 + m_scalar\<close>.  The floor
  division acts on the scaled delta, the scalar is added afterwards.
\<close>

theorem C6_get_multiplier_formula:
  "(stat s = DH \<longrightarrow> get_multiplier s = 1.25) \<and>
   get_multiplier \<lparr>stat = DH, val = 0\<rparr> = 1.25 \<and>
   (stat s = MAINSTAT \<longrightarrow>
      get_multiplier s =
        of_int ((m_factor (stat s) * (val s - base (stat s))) div 340 + m_scalar (stat s))) \<and>
   (stat s \<noteq> DH \<and> stat s \<noteq> MAINSTAT \<longrightarrow>
      get_multiplier s =
        of_int ((m_factor (stat s) * (val s - base (stat s))) div 3300 + m_scalar (stat s)))"
  by (simp add: get_multiplier_def)

theorem C6_get_multiplier_formula_witness:
  "(stat \<lparr>stat = DH, val = 1000\<rparr> = DH \<and> get_multiplier \<lparr>stat = DH, val = 1000\<rparr> = 1.25) \<and>
   (stat \<lparr>stat = MAINSTAT, val = 1000\<rparr> = MAINSTAT \<and>
    get_multiplier \<lparr>stat = MAINSTAT, val = 1000\<rparr> = 320) \<and>
   (stat \<lparr>stat = CRIT, val = 1000\<rparr> \<noteq> DH \<and> stat \<lparr>stat = CRIT, val = 1000\<rparr> \<noteq> MAINSTAT \<and>
    get_multiplier \<lparr>stat = CRIT, val = 1000\<rparr> = 437)"
  using C6_get_multiplier_formula [of "\<lparr>stat = DH, val = 1000\<rparr>"]
    C6_get_multiplier_formula [of "\<lparr>stat = MAINSTAT, val = 1000\<rparr>"]
    C6_get_multiplier_formula [of "\<lparr>stat = CRIT, val = 1000\<rparr>"]
  by simp

section \<open>Properties of the party composition\<close>

lemma n_roles_Comp_init: "n_roles (Comp_init js) = card (role ` set js)"
  by (simp add: Comp_init_def)

lemma raidbuffs_Comp_init: "raidbuffs (Comp_init js) = (\<Union>j\<in>set js. set (raidbuff j))"
  by (simp add: Comp_init_def)

text \<open>
  C8: the composition of the empty job list has \<open>n_roles = 0\<close> and no raid buff.
  For every job list \<open>n_roles\<close> is the number of distinct roles and
  \<open>raidbuffs\<close> the union of the jobs' buff lists as a set; both depend on the set of
  jobs only, so order and duplicates do not matter, and \<open>[SCH, SCH]\<close> gives
  \<open>n_roles = 1\<close> and \<open>raidbuffs = {CHAIN}\<close>.
\<close>

theorem C8_composition:
  "n_roles (Comp_init []) = 0 \<and> raidbuffs (Comp_init []) = {} \<and>
   n_roles (Comp_init js) = card (role ` set js) \<and>
   raidbuffs (Comp_init js) = (\<Union>j\<in>set js. set (raidbuff j)) \<and>
   (set js = set ks \<longrightarrow>
      n_roles (Comp_init js) = n_roles (Comp_init ks) \<and>
      raidbuffs (Comp_init js) = raidbuffs (Comp_init ks)) \<and>
   n_roles (Comp_init [SCH, SCH]) = 1 \<and> raidbuffs (Comp_init [SCH, SCH]) = {CHAIN}"
proof -
  have e: "n_roles (Comp_init []) = 0 \<and> raidbuffs (Comp_init []) = {}"
    by (simp add: Comp_init_def)
  have o: "set js = set ks \<longrightarrow>
      n_roles (Comp_init js) = n_roles (Comp_init ks) \<and>
      raidbuffs (Comp_init js) = raidbuffs (Comp_init ks)"
    unfolding n_roles_Comp_init raidbuffs_Comp_init by metis
  have s: "n_roles (Comp_init [SCH, SCH]) = 1 \<and> raidbuffs (Comp_init [SCH, SCH]) = {CHAIN}"
    by (simp add: Comp_init_def)
  from e o s n_roles_Comp_init raidbuffs_Comp_init show ?thesis by blast
qed

theorem C8_composition_witness:
  "set [SCH, PLD, SCH, BRD] = set [BRD, SCH, PLD] \<and>
   n_roles (Comp_init [SCH, PLD, SCH, BRD]) = 3 \<and>
   n_roles (Comp_init [BRD, SCH, PLD]) = 3 \<and>
   raidbuffs (Comp_init [SCH, PLD, SCH, BRD]) = {CHAIN, BV, BARD_CRIT, BARD_DH} \<and>
   raidbuffs (Comp_init [BRD, SCH, PLD]) = {CHAIN, BV, BARD_CRIT, BARD_DH}"
proof -
  have h: "set [SCH, PLD, SCH, BRD] = set [BRD, SCH, PLD]" by auto
  have n: "n_roles (Comp_init [BRD, SCH, PLD]) = 3" by (simp add: Comp_init_def)
  have r: "raidbuffs (Comp_init [BRD, SCH, PLD]) = {CHAIN, BV, BARD_CRIT, BARD_DH}"
    by (auto simp: Comp_init_def)
  from C8_composition [of "[SCH, PLD, SCH, BRD]" "[BRD, SCH, PLD]"] h n r
  show ?thesis by metis
qed

section \<open>Properties of the buff loop\<close>

lemma fold_buff_step:
  "fold buff_step xs (c, d) =
     (c + sum_list (map avg_buff_effect (filter (\<lambda>b. b \<in> crit_buffs) xs)),
      d + sum_list (map avg_buff_effect (filter (\<lambda>b. b \<notin> crit_buffs \<and> b \<in> dh_buffs) xs)))"
  by (induction xs arbitrary: c d) (simp_all add: buff_step_def)

lemma fold_buff_step_distinct:
  assumes "distinct xs"
  shows "fold buff_step xs (c, d) =
     (c + (\<Sum>b \<in> set xs \<inter> crit_buffs. avg_buff_effect b),
      d + (\<Sum>b \<in> (set xs \<inter> dh_buffs) - crit_buffs. avg_buff_effect b))"
proof -
  have 1: "sum_list (map avg_buff_effect (filter (\<lambda>b. b \<in> crit_buffs) xs)) =
           (\<Sum>b \<in> set xs \<inter> crit_buffs. avg_buff_effect b)"
  proof -
    have "distinct (filter (\<lambda>b. b \<in> crit_buffs) xs)" using assms by simp
    moreover have "set (filter (\<lambda>b. b \<in> crit_buffs) xs) = set xs \<inter> crit_buffs" by auto
    ultimately show ?thesis by (simp add: sum_list_distinct_conv_sum_set)
  qed
  have 2: "sum_list (map avg_buff_effect (filter (\<lambda>b. b \<notin> crit_buffs \<and> b \<in> dh_buffs) xs)) =
           (\<Sum>b \<in> (set xs \<inter> dh_buffs) - crit_buffs. avg_buff_effect b)"
  proof -
    have "distinct (filter (\<lambda>b. b \<notin> crit_buffs \<and> b \<in> dh_buffs) xs)" using assms by simp
    moreover have "set (filter (\<lambda>b. b \<notin> crit_buffs \<and> b \<in> dh_buffs) xs)
                   = (set xs \<inter> dh_buffs) - crit_buffs" by auto
    ultimately show ?thesis by (simp add: sum_list_distinct_conv_sum_set)
  qed
  show ?thesis by (simp add: fold_buff_step 1 2)
qed

lemma distinct_all_Buffs: "distinct all_Buffs"
  by (simp add: all_Buffs_def)

lemma set_all_Buffs: "set all_Buffs = UNIV"
proof -
  have "b \<in> set all_Buffs" for b
    by (cases b) (simp_all add: all_Buffs_def)
  then show ?thesis by auto
qed

lemma party_buffs_sum:
  "party_buffs bs (c, d) =
     (c + (\<Sum>b \<in> bs \<inter> crit_buffs. avg_buff_effect b),
      d + (\<Sum>b \<in> (bs \<inter> dh_buffs) - crit_buffs. avg_buff_effect b))"
proof -
  have "distinct (filter (\<lambda>b. b \<in> bs) all_Buffs)"
    by (simp add: distinct_all_Buffs)
  moreover have "set (filter (\<lambda>b. b \<in> bs) all_Buffs) = bs"
    by (auto simp: set_all_Buffs)
  ultimately show ?thesis
    unfolding party_buffs_def by (simp add: fold_buff_step_distinct)
qed

lemma party_buffs_any_order:
  "distinct xs \<Longrightarrow> set xs = bs \<Longrightarrow> fold buff_step xs rates = party_buffs bs rates"
  by (cases rates) (simp add: fold_buff_step_distinct party_buffs_sum)

lemma finite_Buffs: "finite (bs :: Buffs set)"
proof -
  have "finite (UNIV :: Buffs set)"
    using set_all_Buffs finite_set by metis
  then show ?thesis by (rule rev_finite_subset) simp
qed

lemma families_overlap: "crit_buffs \<inter> dh_buffs = {DEVILMENT}"
  by (auto simp: crit_buffs_def dh_buffs_def)

lemma party_buffs_insert:
  assumes "b \<notin> bs"
  shows "party_buffs (insert b bs) rates = buff_step b (party_buffs bs rates)"
proof (cases rates)
  case (Pair c d)
  have f: "finite (bs \<inter> crit_buffs)" "finite (bs \<inter> dh_buffs - crit_buffs)"
    by (rule finite_Buffs)+
  show ?thesis
  proof (cases "b \<in> crit_buffs")
    case True
    then have 1: "insert b bs \<inter> crit_buffs = insert b (bs \<inter> crit_buffs)"
      and 2: "insert b bs \<inter> dh_buffs - crit_buffs = bs \<inter> dh_buffs - crit_buffs"
      by auto
    have s1: "sum avg_buff_effect (insert b bs \<inter> crit_buffs) =
              sum avg_buff_effect (bs \<inter> crit_buffs) + avg_buff_effect b"
      unfolding 1 using assms f by (subst sum.insert) auto
    show ?thesis
      unfolding Pair party_buffs_sum buff_step_def s1 2 using True by simp
  next
    case False
    note nc = False
    show ?thesis
    proof (cases "b \<in> dh_buffs")
      case True
      with nc have 1: "insert b bs \<inter> crit_buffs = bs \<inter> crit_buffs"
        and 2: "insert b bs \<inter> dh_buffs - crit_buffs = insert b (bs \<inter> dh_buffs - crit_buffs)"
        by auto
      have s2: "sum avg_buff_effect (insert b bs \<inter> dh_buffs - crit_buffs) =
                sum avg_buff_effect (bs \<inter> dh_buffs - crit_buffs) + avg_buff_effect b"
        unfolding 2 using assms f by (subst sum.insert) auto
      show ?thesis
        unfolding Pair party_buffs_sum buff_step_def 1 s2 using True nc by simp
    next
      case False
      with nc have 1: "insert b bs \<inter> crit_buffs = bs \<inter> crit_buffs"
        and 2: "insert b bs \<inter> dh_buffs - crit_buffs = bs \<inter> dh_buffs - crit_buffs"
        by auto
      show ?thesis
        unfolding Pair party_buffs_sum buff_step_def 1 2 using False nc by simp
    qed
  qed
qed

lemma no_job_has_DEVILMENT: "DEVILMENT \<notin> set (raidbuff j)"
  by (cases j) simp_all

lemma Comp_init_no_DEVILMENT: "DEVILMENT \<notin> raidbuffs (Comp_init js)"
  by (simp add: Comp_init_def no_job_has_DEVILMENT)


section \<open>The stages of the damage calculation\<close>

lemma calc_damage_stages:
  "calc_damage self potency cmp is_dot crit_rate dh_rate =
     weighted_damage self (trait_damage self potency cmp is_dot)
       (final_rates self cmp crit_rate dh_rate)"
  by (simp add: calc_damage_def weighted_damage_def trait_damage_def after_stats_def
      base_damage_def final_rates_def start_rates_def Let_def split: prod.splits)


lemma final_rates_remove:
  assumes "b \<in> raidbuffs cmp"
  shows "final_rates self cmp cro dro =
     buff_step b (final_rates self (cmp\<lparr>raidbuffs := raidbuffs cmp - {b}\<rparr>) cro dro)"
proof -
  have "insert b (raidbuffs cmp - {b}) = raidbuffs cmp" using assms by auto
  then show ?thesis
    using party_buffs_insert [of b "raidbuffs cmp - {b}"] by (simp add: final_rates_def)
qed

section \<open>Raid buffs and the rates\<close>

text \<open>
  C10: \<open>DEVILMENT\<close> is in both families.  For every composition whose raid-buff
  set contains it, the loop adds its average-uptime contribution to the crit rate and
  leaves the dh rate as it is without that buff.  In general the dh rate receives the
  contributions of the direct-hit family's buffs that are not in the crit family, and of
  no other buff: the crit branch of the loop comes first.
\<close>

theorem C10_devilment_crit_only:
  "DEVILMENT \<in> crit_buffs \<inter> dh_buffs \<and>
   (DEVILMENT \<in> raidbuffs cmp \<longrightarrow>
      final_rates self cmp cro dro =
        (fst (final_rates self (cmp\<lparr>raidbuffs := raidbuffs cmp - {DEVILMENT}\<rparr>) cro dro)
           + avg_buff_effect DEVILMENT,
         snd (final_rates self (cmp\<lparr>raidbuffs := raidbuffs cmp - {DEVILMENT}\<rparr>) cro dro))) \<and>
   final_rates self cmp cro dro =
     (fst (start_rates self cro dro) + (\<Sum>b \<in> raidbuffs cmp \<inter> crit_buffs. avg_buff_effect b),
      snd (start_rates self cro dro)
        + (\<Sum>b \<in> (raidbuffs cmp \<inter> dh_buffs) - crit_buffs. avg_buff_effect b)) \<and>
   calc_damage self potency cmp is_dot cro dro =
     weighted_damage self (trait_damage self potency cmp is_dot) (final_rates self cmp cro dro)"
proof -
  have a: "DEVILMENT \<in> crit_buffs \<inter> dh_buffs"
    by (simp add: crit_buffs_def dh_buffs_def)
  have b: "DEVILMENT \<in> raidbuffs cmp \<longrightarrow>
      final_rates self cmp cro dro =
        (fst (final_rates self (cmp\<lparr>raidbuffs := raidbuffs cmp - {DEVILMENT}\<rparr>) cro dro)
           + avg_buff_effect DEVILMENT,
         snd (final_rates self (cmp\<lparr>raidbuffs := raidbuffs cmp - {DEVILMENT}\<rparr>) cro dro))"
  proof
    assume "DEVILMENT \<in> raidbuffs cmp"
    from final_rates_remove [OF this] a show "final_rates self cmp cro dro =
        (fst (final_rates self (cmp\<lparr>raidbuffs := raidbuffs cmp - {DEVILMENT}\<rparr>) cro dro)
           + avg_buff_effect DEVILMENT,
         snd (final_rates self (cmp\<lparr>raidbuffs := raidbuffs cmp - {DEVILMENT}\<rparr>) cro dro))"
      by (simp add: buff_step_def split: prod.splits)
  qed
  have c: "final_rates self cmp cro dro =
     (fst (start_rates self cro dro) + (\<Sum>b \<in> raidbuffs cmp \<inter> crit_buffs. avg_buff_effect b),
      snd (start_rates self cro dro)
        + (\<Sum>b \<in> (raidbuffs cmp \<inter> dh_buffs) - crit_buffs. avg_buff_effect b))"
    unfolding final_rates_def
    using party_buffs_sum [of "raidbuffs cmp" "fst (start_rates self cro dro)" "snd (start_rates self cro dro)"]
    by simp
  from a b c calc_damage_stages show ?thesis by blast
qed

text \<open>
  No job of the catalogue provides \<open>DEVILMENT\<close> (lemma
  \<open>Comp_init_no_DEVILMENT\<close>), so the composition of the example has its
  \<open>raidbuffs\<close> field set directly.
\<close>

theorem C10_devilment_crit_only_witness:
  "DEVILMENT \<in> raidbuffs \<lparr>jobs = [DNC], raidbuffs = {TECH, BV, DEVILMENT}, n_roles = 1\<rparr> \<and>
   final_rates (CharacterStats_init DNC 100 340 340 380 380 380 380 340)
     \<lparr>jobs = [DNC], raidbuffs = {TECH, BV, DEVILMENT}, n_roles = 1\<rparr> None None
   = (1 / 20 + 1 / 30, 1 / 45)"
proof -
  let ?X = "CharacterStats_init DNC 100 340 340 380 380 380 380 340"
  let ?C = "\<lparr>jobs = [DNC], raidbuffs = {TECH, BV, DEVILMENT}, n_roles = 1\<rparr>"
  have h: "DEVILMENT \<in> raidbuffs ?C" by simp
  have r: "raidbuffs ?C - {DEVILMENT} = {TECH, BV}" by auto
  have s: "start_rates ?X None None = (1 / 20, 0)"
    by (simp add: start_rates_def py_not_def CharacterStats_init_def ProbabalisticStat_init_def
        crit_convert_def get_p_def)
  have p: "party_buffs {TECH, BV} (1 / 20, 0) = (1 / 20, 1 / 45)"
    by (simp add: party_buffs_def all_Buffs_def buff_step_def crit_buffs_def dh_buffs_def
        avg_buff_effect_def)
  have e: "final_rates ?X (?C\<lparr>raidbuffs := raidbuffs ?C - {DEVILMENT}\<rparr>) None None = (1 / 20, 1 / 45)"
    unfolding final_rates_def s using p r by simp
  have d: "avg_buff_effect DEVILMENT = 1 / 30" by (simp add: avg_buff_effect_def)
  from C10_devilment_crit_only [of ?C ?X None None] h
  have "final_rates ?X ?C None None =
        (fst (final_rates ?X (?C\<lparr>raidbuffs := raidbuffs ?C - {DEVILMENT}\<rparr>) None None)
           + avg_buff_effect DEVILMENT,
         snd (final_rates ?X (?C\<lparr>raidbuffs := raidbuffs ?C - {DEVILMENT}\<rparr>) None None))"
    by blast
  then have "final_rates ?X ?C None None = (1 / 20 + 1 / 30, 1 / 45)"
    unfolding e d by simp
  with h show ?thesis by blast
qed


text \<open>
  C5 (as stated) fails on the catalogue: the crit-boosting and the direct-hit-boosting
  family are not disjoint, \<open>DEVILMENT\<close> is in both.
\<close>

theorem C5_families_not_disjoint_counterexample:
  "DEVILMENT \<in> crit_buffs \<and> DEVILMENT \<in> dh_buffs"
  by (simp add: crit_buffs_def dh_buffs_def)

text \<open>
  C5 (amended): the two families share exactly one buff, \<open>DEVILMENT\<close>, which no job
  of the catalogue provides.  For every buff of the composition's raid-buff set other
  than \<open>DEVILMENT\<close>, \<open>calc_damage\<close> adds the buff's average-uptime contribution
  to the crit rate if the buff is in the crit family, to the dh rate if it is in the
  direct-hit family, and changes neither rate if it is in neither family.
\<close>

theorem C5_buff_contributions:
  "crit_buffs \<inter> dh_buffs = {DEVILMENT} \<and>
   DEVILMENT \<notin> raidbuffs (Comp_init js) \<and>
   (b \<in> raidbuffs cmp \<and> b \<noteq> DEVILMENT \<longrightarrow>
      (b \<in> crit_buffs \<longrightarrow>
         final_rates self cmp cro dro =
           (fst (final_rates self (cmp\<lparr>raidbuffs := raidbuffs cmp - {b}\<rparr>) cro dro)
              + avg_buff_effect b,
            snd (final_rates self (cmp\<lparr>raidbuffs := raidbuffs cmp - {b}\<rparr>) cro dro))) \<and>
      (b \<in> dh_buffs \<longrightarrow>
         final_rates self cmp cro dro =
           (fst (final_rates self (cmp\<lparr>raidbuffs := raidbuffs cmp - {b}\<rparr>) cro dro),
            snd (final_rates self (cmp\<lparr>raidbuffs := raidbuffs cmp - {b}\<rparr>) cro dro)
              + avg_buff_effect b)) \<and>
      (b \<notin> crit_buffs \<and> b \<notin> dh_buffs \<longrightarrow>
         final_rates self cmp cro dro =
           final_rates self (cmp\<lparr>raidbuffs := raidbuffs cmp - {b}\<rparr>) cro dro)) \<and>
   calc_damage self potency cmp is_dot cro dro =
     weighted_damage self (trait_damage self potency cmp is_dot) (final_rates self cmp cro dro)"
proof -
  let ?R = "final_rates self (cmp\<lparr>raidbuffs := raidbuffs cmp - {b}\<rparr>) cro dro"
  have step: "b \<in> raidbuffs cmp \<Longrightarrow> final_rates self cmp cro dro = buff_step b ?R"
    by (rule final_rates_remove)
  have excl: "b \<noteq> DEVILMENT \<Longrightarrow> b \<in> dh_buffs \<Longrightarrow> b \<notin> crit_buffs"
    using families_overlap by blast
  have 1: "b \<in> raidbuffs cmp \<and> b \<noteq> DEVILMENT \<longrightarrow>
      (b \<in> crit_buffs \<longrightarrow> final_rates self cmp cro dro = (fst ?R + avg_buff_effect b, snd ?R)) \<and>
      (b \<in> dh_buffs \<longrightarrow> final_rates self cmp cro dro = (fst ?R, snd ?R + avg_buff_effect b)) \<and>
      (b \<notin> crit_buffs \<and> b \<notin> dh_buffs \<longrightarrow> final_rates self cmp cro dro = ?R)"
    using step excl by (cases ?R) (auto simp: buff_step_def)
  from 1 families_overlap Comp_init_no_DEVILMENT calc_damage_stages show ?thesis by blast
qed

theorem C5_buff_contributions_witness:
  "(BARD_CRIT \<in> raidbuffs (Comp_init [BRD, NIN]) \<and> BARD_CRIT \<noteq> DEVILMENT \<and> BARD_CRIT \<in> crit_buffs) \<and>
   (BV \<in> raidbuffs (Comp_init [BRD, NIN]) \<and> BV \<noteq> DEVILMENT \<and> BV \<in> dh_buffs) \<and>
   (TRICK \<in> raidbuffs (Comp_init [BRD, NIN]) \<and> TRICK \<noteq> DEVILMENT
      \<and> TRICK \<notin> crit_buffs \<and> TRICK \<notin> dh_buffs) \<and>
   final_rates (CharacterStats_init BRD 100 340 340 380 380 380 380 340)
     (Comp_init [BRD, NIN]) None None
   = (fst (final_rates (CharacterStats_init BRD 100 340 340 380 380 380 380 340)
        ((Comp_init [BRD, NIN])\<lparr>raidbuffs := raidbuffs (Comp_init [BRD, NIN]) - {BARD_CRIT}\<rparr>)
        None None) + 3 / 400,
      snd (final_rates (CharacterStats_init BRD 100 340 340 380 380 380 380 340)
        ((Comp_init [BRD, NIN])\<lparr>raidbuffs := raidbuffs (Comp_init [BRD, NIN]) - {BARD_CRIT}\<rparr>)
        None None)) \<and>
   final_rates (CharacterStats_init BRD 100 340 340 380 380 380 380 340)
     (Comp_init [BRD, NIN]) None None
   = (fst (final_rates (CharacterStats_init BRD 100 340 340 380 380 380 380 340)
        ((Comp_init [BRD, NIN])\<lparr>raidbuffs := raidbuffs (Comp_init [BRD, NIN]) - {BV}\<rparr>)
        None None),
      snd (final_rates (CharacterStats_init BRD 100 340 340 380 380 380 380 340)
        ((Comp_init [BRD, NIN])\<lparr>raidbuffs := raidbuffs (Comp_init [BRD, NIN]) - {BV}\<rparr>)
        None None) + 1 / 45) \<and>
   final_rates (CharacterStats_init BRD 100 340 340 380 380 380 380 340)
     (Comp_init [BRD, NIN]) None None
   = final_rates (CharacterStats_init BRD 100 340 340 380 380 380 380 340)
        ((Comp_init [BRD, NIN])\<lparr>raidbuffs := raidbuffs (Comp_init [BRD, NIN]) - {TRICK}\<rparr>)
        None None"
proof -
  let ?X = "CharacterStats_init BRD 100 340 340 380 380 380 380 340"
  let ?C = "Comp_init [BRD, NIN]"
  have m: "BARD_CRIT \<in> raidbuffs ?C" "BV \<in> raidbuffs ?C" "TRICK \<in> raidbuffs ?C"
    by (simp_all add: Comp_init_def)
  have f: "BARD_CRIT \<in> crit_buffs" "BV \<in> dh_buffs" "TRICK \<notin> crit_buffs" "TRICK \<notin> dh_buffs"
    by (simp_all add: crit_buffs_def dh_buffs_def)
  have a: "avg_buff_effect BARD_CRIT = 3 / 400" "avg_buff_effect BV = 1 / 45"
    by (simp_all add: avg_buff_effect_def)
  from C5_buff_contributions [of "[]" BARD_CRIT ?C ?X None None] m f
  have 1: "final_rates ?X ?C None None =
      (fst (final_rates ?X (?C\<lparr>raidbuffs := raidbuffs ?C - {BARD_CRIT}\<rparr>) None None) + 3 / 400,
       snd (final_rates ?X (?C\<lparr>raidbuffs := raidbuffs ?C - {BARD_CRIT}\<rparr>) None None))"
    unfolding a by simp
  from C5_buff_contributions [of "[]" BV ?C ?X None None] m f
  have 2: "final_rates ?X ?C None None =
      (fst (final_rates ?X (?C\<lparr>raidbuffs := raidbuffs ?C - {BV}\<rparr>) None None),
       snd (final_rates ?X (?C\<lparr>raidbuffs := raidbuffs ?C - {BV}\<rparr>) None None) + 1 / 45)"
    unfolding a by simp
  from C5_buff_contributions [of "[]" TRICK ?C ?X None None] m f
  have 3: "final_rates ?X ?C None None =
      final_rates ?X (?C\<lparr>raidbuffs := raidbuffs ?C - {TRICK}\<rparr>) None None"
    by simp
  from m f 1 2 3 show ?thesis by simp
qed

section \<open>Rate overrides\<close>

lemma zero_override_is_none:
  "calc_damage self potency cmp is_dot (Some 0) (Some 0)
     = calc_damage self potency cmp is_dot None None"
  by (simp add: calc_damage_def py_not_def)

text \<open>
  C3: with the overrides \<open>crit_rate = 0\<close> and \<open>dh_rate = 0\<close> the normal rate should
  be 1 and the result the post-trait damage \<open>D\<close>.  The source tests
  \<open>not crit_rate\<close> and \<open>not dh_rate\<close>, which hold for a supplied zero as they do
  for \<open>None\<close>, so the character's own probabilities replace the overrides.  For the
  character below, in an empty party, \<open>D = 139\<close>; the crit rate used is 0.05, the
  normal rate 0.95 and the result 141.75, the same as without overrides.
\<close>

theorem C3_zero_override_ignored:
  "trait_damage (CharacterStats_init BLM 100 340 340 380 380 380 380 340) 100 (Comp_init [])
     False = 139 \<and>
   final_rates (CharacterStats_init BLM 100 340 340 380 380 380 380 340) (Comp_init [])
     (Some 0) (Some 0) = (1 / 20, 0) \<and>
   normal_rate_of (final_rates (CharacterStats_init BLM 100 340 340 380 380 380 380 340)
     (Comp_init []) (Some 0) (Some 0)) = 19 / 20 \<and>
   calc_damage (CharacterStats_init BLM 100 340 340 380 380 380 380 340) 100 (Comp_init [])
     False (Some 0) (Some 0) = 567 / 4 \<and>
   calc_damage (CharacterStats_init BLM 100 340 340 380 380 380 380 340) 100 (Comp_init [])
     False (Some 0) (Some 0)
   = calc_damage (CharacterStats_init BLM 100 340 340 380 380 380 380 340) 100 (Comp_init [])
     False None None"
proof -
  let ?X = "CharacterStats_init BLM 100 340 340 380 380 380 380 340"
  have D: "trait_damage ?X 100 (Comp_init []) False = 139"
    by code_simp
  have R: "final_rates ?X (Comp_init []) (Some 0) (Some 0) = (1 / 20, 0)"
    by (simp add: final_rates_def start_rates_def py_not_def party_buffs_def get_p_def
        CharacterStats_init_def ProbabalisticStat_init_def crit_convert_def Comp_init_def)
  have N: "normal_rate_of (1 / 20, 0) = 19 / 20"
    by (simp add: normal_rate_of_def)
  have W: "calc_damage ?X 100 (Comp_init []) False (Some 0) (Some 0) = 567 / 4"
    by code_simp
  show ?thesis
    unfolding D R N W zero_override_is_none [symmetric] by simp
qed

section \<open>The pipeline of the specification\<close>

text \<open>
  C1: \<open>calc_damage\<close> should return exactly the integer pipeline of the specification.
  It does not: \<open>apply_stat\<close> floors a product of doubles.  For the character below
  \<open>D = 45\<close> and the critical-hit multiplier is 400; the double nearest to 1.4 lies
  below 1.4, the product \<open>45 * 1.4\<close> is rounded to a double below 63, and its floor is
  62, where \<open>floor(45 * (1 + 400 / 1000))\<close> is 63.  The result is 45.85, the pipeline
  of the specification gives 45.9 at the same rates.
\<close>

theorem C1_floor_of_double_product:
  "trait_damage (CharacterStats_init BLM 6 340 340 380 380 380 380 340) 100 (Comp_init [])
     False = 45 \<and>
   spec_D BLM 6 340 340 380 380 100 (n_roles (Comp_init [])) False = 45 \<and>
   apply_stat 45 (crit (CharacterStats_init BLM 6 340 340 380 380 380 380 340)) = 62 \<and>
   spec_apply_stat 45 (spec_multiplier 200 380 400 380) = 63 \<and>
   final_rates (CharacterStats_init BLM 6 340 340 380 380 380 380 340) (Comp_init [])
     None None = (1 / 20, 0) \<and>
   calc_damage (CharacterStats_init BLM 6 340 340 380 380 380 380 340) 100 (Comp_init [])
     False None None = 917 / 20 \<and>
   spec_weighted_sum (spec_D BLM 6 340 340 380 380 100 (n_roles (Comp_init [])) False) 380
     (1 / 20) 0 = 459 / 10"
proof -
  let ?X = "CharacterStats_init BLM 6 340 340 380 380 380 380 340"
  have 1: "trait_damage ?X 100 (Comp_init []) False = 45" by code_simp
  have 2: "spec_D BLM 6 340 340 380 380 100 (n_roles (Comp_init [])) False = 45"
    by (simp add: spec_D_def spec_subtotal_def spec_mainstat_multiplier_def spec_apply_stat_def
        spec_multiplier_def Comp_init_def)
  have 3: "apply_stat 45 (crit ?X) = 62" by code_simp
  have 4: "spec_apply_stat 45 (spec_multiplier 200 380 400 380) = 63"
    by (simp add: spec_apply_stat_def spec_multiplier_def)
  have 5: "final_rates ?X (Comp_init []) None None = (1 / 20, 0)"
    by (simp add: final_rates_def start_rates_def py_not_def party_buffs_def get_p_def
        CharacterStats_init_def ProbabalisticStat_init_def crit_convert_def Comp_init_def)
  have 6: "calc_damage ?X 100 (Comp_init []) False None None = 917 / 20" by code_simp
  have 7: "spec_weighted_sum 45 380 (1 / 20) 0 = 459 / 10"
    by (simp add: spec_weighted_sum_def spec_apply_stat_def spec_multiplier_def)
  show ?thesis unfolding 1 2 3 4 5 6 7 by simp
qed

section \<open>Monotonicity in determination\<close>

lemma apply_stat_mono:
  assumes "0 \<le> 1000 + get_multiplier st" and "x \<le> y"
  shows "apply_stat x st \<le> apply_stat y st"
proof -
  let ?f = "truncate_factor (get_multiplier st) 1000"
  have "0 \<le> (1000 + get_multiplier st) / 1000" using assms(1) by simp
  then have f: "0 \<le> ?f" unfolding truncate_factor_def by (rule double_of_nonneg)
  have "py_float x \<le> py_float y"
    unfolding py_float_def using assms(2) by (intro double_of_mono) simp
  then have "py_float x * ?f \<le> py_float y * ?f"
    using f by (rule mult_right_mono)
  then have "fmul (py_float x) ?f \<le> fmul (py_float y) ?f"
    unfolding fmul_def by (rule double_of_mono)
  then show ?thesis
    unfolding apply_stat_def multiply_and_truncate_def by (rule floor_mono)
qed

lemma apply_stat_mono_stat:
  assumes "0 \<le> x" and "get_multiplier s1 \<le> get_multiplier s2"
  shows "apply_stat x s1 \<le> apply_stat x s2"
proof -
  have "(1000 + get_multiplier s1) / 1000 \<le> (1000 + get_multiplier s2) / 1000"
    using assms(2) by simp
  then have "truncate_factor (get_multiplier s1) 1000 \<le> truncate_factor (get_multiplier s2) 1000"
    unfolding truncate_factor_def by (rule double_of_mono)
  moreover have "0 \<le> py_float x"
    unfolding py_float_def using assms(1) by (intro double_of_nonneg) simp
  ultimately have "py_float x * truncate_factor (get_multiplier s1) 1000
           \<le> py_float x * truncate_factor (get_multiplier s2) 1000"
    by (intro mult_left_mono)
  then have "fmul (py_float x) (truncate_factor (get_multiplier s1) 1000)
           \<le> fmul (py_float x) (truncate_factor (get_multiplier s2) 1000)"
    unfolding fmul_def by (rule double_of_mono)
  then show ?thesis
    unfolding apply_stat_def multiply_and_truncate_def by (rule floor_mono)
qed

lemma get_multiplier_DET_mono:
  assumes "d1 \<le> d2"
  shows "get_multiplier \<lparr>stat = DET, val = d1\<rparr> \<le> get_multiplier \<lparr>stat = DET, val = d2\<rparr>"
proof -
  have "130 * (d1 - 340) div 3300 \<le> 130 * (d2 - 340) div 3300"
    using assms by (intro zdiv_mono1) simp_all
  then show ?thesis by (simp add: get_multiplier_def)
qed

lemma after_stats_mono:
  assumes "0 \<le> 1000 + get_multiplier (ten self)"
    and "is_dot \<longrightarrow> 0 \<le> 1000 + get_multiplier (speed self)"
    and "x \<le> y"
  shows "after_stats self is_dot x \<le> after_stats self is_dot y"
proof -
  have 1: "apply_stat x (ten self) \<le> apply_stat y (ten self)"
    using assms(1,3) by (rule apply_stat_mono)
  define x2 where "x2 = (if is_dot then apply_stat (apply_stat x (ten self)) (speed self)
                         else apply_stat x (ten self))"
  define y2 where "y2 = (if is_dot then apply_stat (apply_stat y (ten self)) (speed self)
                         else apply_stat y (ten self))"
  have 2: "x2 \<le> y2"
    unfolding x2_def y2_def using 1 assms(2) by (auto intro: apply_stat_mono)
  have 3: "x2 div 100 \<le> y2 div 100"
    using 2 by (intro zdiv_mono1) simp_all
  have "(0::real) \<le> 1.3" by simp
  then have h: "0 \<le> double_of 1.3" by (rule double_of_nonneg)
  have "py_float (x2 div 100) \<le> py_float (y2 div 100)"
    unfolding py_float_def using 3 by (intro double_of_mono) simp
  then have "py_float (x2 div 100) * double_of 1.3 \<le> py_float (y2 div 100) * double_of 1.3"
    using h by (rule mult_right_mono)
  then have "fmul (py_float (x2 div 100)) (double_of 1.3)
           \<le> fmul (py_float (y2 div 100)) (double_of 1.3)"
    unfolding fmul_def by (rule double_of_mono)
  then have 4: "\<lfloor>fmul (py_float (x2 div 100)) (double_of 1.3)\<rfloor>
              \<le> \<lfloor>fmul (py_float (y2 div 100)) (double_of 1.3)\<rfloor>"
    by (rule floor_mono)
  show ?thesis
    using 3 4 unfolding after_stats_def Let_def x2_def y2_def by simp
qed

lemma weighted_damage_mono:
  assumes "0 \<le> 1000 + get_multiplier (crit self)"
    and "0 \<le> cr" "cr \<le> 1" "0 \<le> dr" "dr \<le> 1"
    and "x \<le> y"
  shows "weighted_damage self x (cr, dr) \<le> weighted_damage self y (cr, dr)"
proof -
  let ?f = "m_factor (stat (dh self))"
  have c: "apply_stat x (crit self) \<le> apply_stat y (crit self)"
    using assms(1,6) by (rule apply_stat_mono)
  have w1: "0 \<le> 1 - cr - dr + cr * dr"
  proof -
    have "0 \<le> (1 - cr) * (1 - dr)" using assms by simp
    then show ?thesis by (simp add: algebra_simps)
  qed
  have w2: "0 \<le> cr - cr * dr"
  proof -
    have "0 \<le> cr * (1 - dr)" using assms by simp
    then show ?thesis by (simp add: algebra_simps)
  qed
  have w3: "0 \<le> dr - cr * dr"
  proof -
    have "0 \<le> dr * (1 - cr)" using assms by simp
    then show ?thesis by (simp add: algebra_simps)
  qed
  have w4: "0 \<le> cr * dr" using assms by simp
  have f: "0 \<le> ?f" by (cases "stat (dh self)") simp_all
  have d: "x * ?f div 1000 \<le> y * ?f div 1000"
    using assms(6) f by (intro zdiv_mono1 mult_right_mono) simp_all
  have e: "apply_stat x (crit self) * ?f div 1000 \<le> apply_stat y (crit self) * ?f div 1000"
    using c f by (intro zdiv_mono1 mult_right_mono) simp_all
  have t1: "real_of_int x * (1 - cr - dr + cr * dr) \<le> real_of_int y * (1 - cr - dr + cr * dr)"
    using assms(6) w1 by (intro mult_right_mono) simp_all
  have t2: "real_of_int (apply_stat x (crit self)) * (cr - cr * dr)
          \<le> real_of_int (apply_stat y (crit self)) * (cr - cr * dr)"
    using c w2 by (intro mult_right_mono) simp_all
  have t3: "real_of_int (x * ?f div 1000) * (dr - cr * dr)
          \<le> real_of_int (y * ?f div 1000) * (dr - cr * dr)"
    using d w3 by (intro mult_right_mono) simp_all
  have t4: "real_of_int (apply_stat x (crit self) * ?f div 1000) * (cr * dr)
          \<le> real_of_int (apply_stat y (crit self) * ?f div 1000) * (cr * dr)"
    using e w4 by (intro mult_right_mono) simp_all
  show ?thesis
    unfolding weighted_damage_def Let_def prod.case
    by (intro add_mono t1 t2 t3 t4)
qed


text \<open>
  C7 (as stated, for every character) fails.  A main stat of 0 makes the factor
  \<open>100 + multiplier\<close> of the subtotal negative (\<open>100 - 165\<close>), so the
  subtotal is negative and a larger determination multiplier makes it smaller: raising
  determination from 340 to 3640 takes the result from -92.85 down to -105.1.
\<close>

theorem C7_determination_counterexample:
  "(340 :: int) \<le> 3640 \<and>
   calc_damage (CharacterStats_init BLM 100 0 340 380 380 380 380 340) 100 (Comp_init [])
     False None None = - (1857 / 20) \<and>
   calc_damage (CharacterStats_init BLM 100 0 3640 380 380 380 380 340) 100 (Comp_init [])
     False None None = - (1051 / 10) \<and>
   calc_damage (CharacterStats_init BLM 100 0 3640 380 380 380 380 340) 100 (Comp_init [])
     False None None
   < calc_damage (CharacterStats_init BLM 100 0 340 380 380 380 380 340) 100 (Comp_init [])
     False None None"
proof -
  let ?X1 = "CharacterStats_init BLM 100 0 340 380 380 380 380 340"
  let ?X2 = "CharacterStats_init BLM 100 0 3640 380 380 380 380 340"
  have 1: "calc_damage ?X1 100 (Comp_init []) False None None = - (1857 / 20)"
    by code_simp
  have 2: "calc_damage ?X2 100 (Comp_init []) False None None = - (1051 / 10)"
    by code_simp
  show ?thesis unfolding 1 2 by simp
qed

text \<open>
  C7 (amended): let the subtotal of the \<open>damage = potency * ...\<close> assignment be
  non-negative, let the factors \<open>1000 + multiplier\<close> of tenacity, of speed (for a
  damage-over-time skill) and of critical hit be non-negative, and let the crit and dh
  rates that enter the weighted sum lie between 0 and 1.  Then, everything else fixed,
  \<open>det1 \<le> det2\<close> implies that the result with determination \<open>det1\<close> is
  at most the result with determination \<open>det2\<close>.
\<close>

theorem C7_determination_monotone:
  assumes "det1 \<le> det2"
    and "0 \<le> base_damage (CharacterStats_init j w ms det1 c h s t p) potency cmp"
    and "0 \<le> 1000 + get_multiplier \<lparr>stat = TEN, val = t\<rparr>"
    and "is_dot \<longrightarrow> 0 \<le> 1000 + get_multiplier \<lparr>stat = SPEED, val = s\<rparr>"
    and "0 \<le> 1000 + get_multiplier \<lparr>stat = CRIT, val = c\<rparr>"
    and "final_rates (CharacterStats_init j w ms det1 c h s t p) cmp cro dro = (cr, dr)"
    and "0 \<le> cr" and "cr \<le> 1" and "0 \<le> dr" and "dr \<le> 1"
  shows "calc_damage (CharacterStats_init j w ms det1 c h s t p) potency cmp is_dot cro dro
       \<le> calc_damage (CharacterStats_init j w ms det2 c h s t p) potency cmp is_dot cro dro"
proof -
  let ?X1 = "CharacterStats_init j w ms det1 c h s t p"
  let ?X2 = "CharacterStats_init j w ms det2 c h s t p"
  let ?B = "base_damage ?X1 potency cmp"
  have B: "base_damage ?X2 potency cmp = ?B"
    by (simp add: base_damage_def CharacterStats_init_def)
  have "final_rates ?X2 cmp cro dro = final_rates ?X1 cmp cro dro"
    by (simp add: final_rates_def start_rates_def CharacterStats_init_def)
  with assms(6) have R: "final_rates ?X2 cmp cro dro = (cr, dr)"
    by simp
  have A: "after_stats ?X2 is_dot = after_stats ?X1 is_dot"
    by (simp add: after_stats_def CharacterStats_init_def fun_eq_iff Let_def)
  have W: "weighted_damage ?X2 = weighted_damage ?X1"
    by (simp add: weighted_damage_def CharacterStats_init_def fun_eq_iff Let_def)
  have tn: "0 \<le> 1000 + get_multiplier (ten ?X1)"
    using assms(3) by (simp add: CharacterStats_init_def)
  have sp: "is_dot \<longrightarrow> 0 \<le> 1000 + get_multiplier (speed ?X1)"
    using assms(4) by (simp add: CharacterStats_init_def)
  have cm: "0 \<le> 1000 + get_multiplier (crit ?X1)"
    using assms(5)
    by (simp add: CharacterStats_init_def ProbabalisticStat_init_def crit_convert_def
        get_multiplier_def)
  have "get_multiplier (det ?X1) \<le> get_multiplier (det ?X2)"
    using get_multiplier_DET_mono [OF assms(1)] by (simp add: CharacterStats_init_def)
  with assms(2) have 1: "apply_stat ?B (det ?X1) \<le> apply_stat ?B (det ?X2)"
    by (rule apply_stat_mono_stat)
  have 2: "trait_damage ?X1 potency cmp is_dot \<le> trait_damage ?X2 potency cmp is_dot"
    unfolding trait_damage_def B A using tn sp 1 by (rule after_stats_mono)
  have "weighted_damage ?X1 (trait_damage ?X1 potency cmp is_dot) (cr, dr)
      \<le> weighted_damage ?X1 (trait_damage ?X2 potency cmp is_dot) (cr, dr)"
    using cm assms(7-10) 2 by (rule weighted_damage_mono)
  then show ?thesis
    unfolding calc_damage_stages assms(6) R W .
qed


theorem C7_determination_monotone_witness:
  "(1500 :: int) \<le> 1600 \<and>
   calc_damage (CharacterStats_init WHM 132 3300 1500 2500 1000 420 500 500) 300
     (Comp_init [SCH, PLD, NIN, BRD]) True None None
   \<le> calc_damage (CharacterStats_init WHM 132 3300 1600 2500 1000 420 500 500) 300
     (Comp_init [SCH, PLD, NIN, BRD]) True None None"
proof -
  let ?X = "CharacterStats_init WHM 132 3300 1500 2500 1000 420 500 500"
  let ?C = "Comp_init [SCH, PLD, NIN, BRD]"
  have h1: "(1500 :: int) \<le> 1600" by simp
  have n: "n_roles ?C = 4" by (simp add: Comp_init_def)
  have "base_damage ?X 300 ?C = 820800"
    by code_simp
  then have h2: "0 \<le> base_damage ?X 300 ?C" by simp
  have h3: "0 \<le> 1000 + get_multiplier \<lparr>stat = TEN, val = 500\<rparr>"
    by (simp add: get_multiplier_def)
  have h4: "True \<longrightarrow> 0 \<le> 1000 + get_multiplier \<lparr>stat = SPEED, val = 420\<rparr>"
    by (simp add: get_multiplier_def)
  have h5: "0 \<le> 1000 + get_multiplier \<lparr>stat = CRIT, val = 2500\<rparr>"
    by (simp add: get_multiplier_def)
  have s: "start_rates ?X None None = (89 / 500, 103 / 1000)"
    by (simp add: start_rates_def py_not_def get_p_def CharacterStats_init_def
        ProbabalisticStat_init_def crit_convert_def)
  have b: "raidbuffs ?C = {CHAIN, TRICK, BV, BARD_CRIT, BARD_DH}"
    by (simp add: Comp_init_def)
  have p: "party_buffs {CHAIN, TRICK, BV, BARD_CRIT, BARD_DH} (89 / 500, 103 / 1000)
           = (99 / 500, 2389 / 18000)"
    by (simp add: party_buffs_def all_Buffs_def buff_step_def crit_buffs_def dh_buffs_def
        avg_buff_effect_def)
  have h6: "final_rates ?X ?C None None = (99 / 500, 2389 / 18000)"
    unfolding final_rates_def s b p ..
  have h7: "(0 :: real) \<le> 99 / 500" and h8: "(99 / 500 :: real) \<le> 1"
    and h9: "(0 :: real) \<le> 2389 / 18000" and h10: "(2389 / 18000 :: real) \<le> 1"
    by simp_all
  from C7_determination_monotone [OF h1 h2 h3 h4 h5 h6 h7 h8 h9 h10] h1
  show ?thesis by blast
qed


section \<open>Properties of the scholar rotation\<close>

lemma double_of_eq_0_iff: "double_of x = 0 \<longleftrightarrow> x = 0"
  using double_of_pos [of x] double_of_neg [of x] double_of_zero
  by (cases "x = 0"; cases "0 < x") auto

lemma slot_eq_0_iff: "slot g tax = 0 \<longleftrightarrow> g + tax = 0"
  by (simp add: slot_def fadd_def double_of_eq_0_iff)

lemma total_potency_branches:
  assumes "g + tax \<noteq> 0"
  shows "total_potency_spreadsheet_port \<lparr>get_gcd = g, get_dot_scalar = sps\<rparr> tax ed nf =
     Inr (if py_mod (budget g) (slot g tax) > 1.5
          then 3 * 100 * ed
               + 6 * of_int \<lceil>fdiv (budget g) (slot g tax)\<rceil> * 290 + 2 * 290 + 4 * 200
               + 6 * 10 * sps * 70
               - 3 * nf * 290
          else 3 * 100 * ed
               + 6 * of_int \<lfloor>fdiv (budget g) (slot g tax)\<rfloor> * 290 + 2 * 290 + 4 * 200
               + 6 * 9 * sps * 70
               + 6 * ((3 - py_mod (budget g) (slot g tax)) / 3) * sps * 70
               - 3 * nf * 290)"
  using assms
  by (simp add: total_potency_spreadsheet_port_def Let_def slot_eq_0_iff
      r2_potency_def b3_potency_def bio_potency_def ed_potency_def)

lemma get_cycle_branches:
  assumes "g + tax \<noteq> 0"
  shows "get_cycle \<lparr>get_gcd = g, get_dot_scalar = sps\<rparr> tax =
     Inr (if py_mod (budget g) (slot g tax) > 1.5
          then 6 * (2 * g + of_int \<lceil>fdiv (budget g) (slot g tax)\<rceil> * (g + tax)) - tax
          else 6 * (2 * g + of_int \<lfloor>fdiv (budget g) (slot g tax)\<rfloor> * (g + tax)) - tax)"
  using assms by (simp add: get_cycle_def Let_def slot_eq_0_iff)



text \<open>
  C9 (as stated, for every input) fails.  With 24 omitted filler casts the total potency
  is -320 over a cycle of 173.5 seconds, so the figure is negative; and for
  \<open>gcd + caster_tax = 0\<close> no figure is returned at all.
\<close>

theorem C9_pps_counterexample:
  "get_pps \<lparr>get_gcd = 5 / 2, get_dot_scalar = 1\<rparr> (1 / 2) 4 24 = Inr (- (640 / 347)) \<and>
   get_pps \<lparr>get_gcd = 0, get_dot_scalar = 1\<rparr> 0 4 0 = Inl ZeroDivisionError"
proof -
  have 1: "get_pps \<lparr>get_gcd = 5 / 2, get_dot_scalar = 1\<rparr> (1 / 2) 4 24 = Inr (- (640 / 347))"
    by code_simp
  have 2: "get_pps \<lparr>get_gcd = 0, get_dot_scalar = 1\<rparr> 0 4 0 = Inl ZeroDivisionError"
    by (simp add: get_pps_def total_potency_spreadsheet_port_def Let_def slot_eq_0_iff)
  from 1 2 show ?thesis by blast
qed

lemma budget_nonneg:
  assumes "2 * g \<le> 30"
  shows "0 \<le> budget g"
proof -
  have "double_of (2 * g) \<le> double_of 30" using assms by (rule double_of_mono)
  moreover have "double_of 30 = 30" using double_of_int [of 30] by simp
  ultimately have "0 \<le> 30 - double_of (2 * g)" by simp
  then show ?thesis unfolding budget_def fsub_def fmul_def by (rule double_of_nonneg)
qed

lemma pps_nonneg:
  assumes "0 \<le> tax" and "tax < g" and "2 * g \<le> 30" and "0 \<le> ed" and "0 \<le> sps"
    and "nf \<le> 2 * of_int \<lfloor>fdiv (budget g) (slot g tax)\<rfloor>"
  shows "\<exists>t c. total_potency_spreadsheet_port \<lparr>get_gcd = g, get_dot_scalar = sps\<rparr> tax ed nf
                 = Inr t \<and>
               get_cycle \<lparr>get_gcd = g, get_dot_scalar = sps\<rparr> tax = Inr c \<and>
               c \<noteq> 0 \<and>
               get_pps \<lparr>get_gcd = g, get_dot_scalar = sps\<rparr> tax ed nf = Inr (t / c) \<and>
               0 \<le> t / c"
proof -
  let ?cs = "\<lparr>get_gcd = g, get_dot_scalar = sps\<rparr>"
  let ?q = "fdiv (budget g) (slot g tax)"
  let ?r = "py_mod (budget g) (slot g tax)"
  have gpos: "0 < g" and dpos: "0 < g + tax" using assms by simp_all
  then have dne: "g + tax \<noteq> 0" by simp
  have spos: "0 < slot g tax" unfolding slot_def fadd_def using dpos by (rule double_of_pos)
  have "0 \<le> budget g / slot g tax" using budget_nonneg [OF assms(3)] spos by simp
  then have "0 \<le> ?q" unfolding fdiv_def by (rule double_of_nonneg)
  then have fl: "0 \<le> \<lfloor>?q\<rfloor>" by simp
  have cl: "\<lfloor>?q\<rfloor> \<le> \<lceil>?q\<rceil>" by (rule floor_le_ceiling)
  define k where "k = (if ?r > 1.5 then \<lceil>?q\<rceil> else \<lfloor>?q\<rfloor>)"
  have k0: "0 \<le> k" and kf: "\<lfloor>?q\<rfloor> \<le> k" using fl cl by (simp_all add: k_def)
  define extra where "extra = (if ?r > 1.5 then 6 * 10 * sps * 70
                               else 6 * 9 * sps * 70 + 6 * ((3 - ?r) / 3) * sps * 70)"
  have e0: "0 \<le> extra"
  proof (cases "?r > 1.5")
    case True
    then show ?thesis using assms(5) by (simp add: extra_def)
  next
    case False
    then have "0 \<le> (3 - ?r) / 3" by simp
    then have "0 \<le> 6 * ((3 - ?r) / 3) * sps * 70" using assms(5) by simp
    moreover have "0 \<le> 6 * 9 * sps * 70" using assms(5) by simp
    ultimately show ?thesis using False by (simp add: extra_def)
  qed
  define t where "t = 3 * 100 * ed + 6 * of_int k * 290 + 2 * 290 + 4 * 200 + extra - 3 * nf * 290"
  define c where "c = 6 * (2 * g + of_int k * (g + tax)) - tax"
  have T: "total_potency_spreadsheet_port ?cs tax ed nf = Inr t"
    using total_potency_branches [OF dne, of sps ed nf]
    by (cases "?r > 1.5") (simp_all add: t_def k_def extra_def)
  have C: "get_cycle ?cs tax = Inr c"
    using get_cycle_branches [OF dne, of sps]
    by (cases "?r > 1.5") (simp_all add: c_def k_def)
  have "nf \<le> 2 * real_of_int k" using assms(6) kf by linarith
  then have t0: "0 \<le> t" using assms(4) e0 by (simp add: t_def)
  have "0 \<le> real_of_int k * (g + tax)" using k0 dpos by simp
  then have c0: "0 < c" using assms(1,2) gpos by (simp add: c_def)
  have P: "get_pps ?cs tax ed nf = Inr (t / c)"
    using c0 by (simp add: get_pps_def T C)
  from T C c0 P t0 show ?thesis by auto
qed

text \<open>
  C9 (amended): whenever the total potency and the cycle duration are returned and the
  cycle is not zero, \<open>get_pps\<close> is their quotient.  For
  \<open>0 \<le> caster_tax < gcd \<le> 15\<close>, a non-negative burst frequency, a non-negative
  speed scalar and a number of omitted filler casts of at most twice the floor of
  \<open>(30 - 2 * gcd) / (gcd + caster_tax)\<close>, the quotient as the source computes it, all
  three are returned and the potency-per-second figure is non-negative.
\<close>

theorem C9_pps_quotient_nonneg:
  "(total_potency_spreadsheet_port \<lparr>get_gcd = g, get_dot_scalar = sps\<rparr> tax ed nf = Inr t \<and>
    get_cycle \<lparr>get_gcd = g, get_dot_scalar = sps\<rparr> tax = Inr c \<and> c \<noteq> 0 \<longrightarrow>
      get_pps \<lparr>get_gcd = g, get_dot_scalar = sps\<rparr> tax ed nf = Inr (t / c)) \<and>
   (0 \<le> tax \<and> tax < g \<and> 2 * g \<le> 30 \<and> 0 \<le> ed \<and> 0 \<le> sps \<and>
    nf \<le> 2 * of_int \<lfloor>fdiv (budget g) (slot g tax)\<rfloor> \<longrightarrow>
      (\<exists>t c. total_potency_spreadsheet_port \<lparr>get_gcd = g, get_dot_scalar = sps\<rparr> tax ed nf
                 = Inr t \<and>
             get_cycle \<lparr>get_gcd = g, get_dot_scalar = sps\<rparr> tax = Inr c \<and>
             c \<noteq> 0 \<and>
             get_pps \<lparr>get_gcd = g, get_dot_scalar = sps\<rparr> tax ed nf = Inr (t / c) \<and>
             0 \<le> t / c))"
proof -
  have 1: "total_potency_spreadsheet_port \<lparr>get_gcd = g, get_dot_scalar = sps\<rparr> tax ed nf = Inr t \<and>
    get_cycle \<lparr>get_gcd = g, get_dot_scalar = sps\<rparr> tax = Inr c \<and> c \<noteq> 0 \<longrightarrow>
      get_pps \<lparr>get_gcd = g, get_dot_scalar = sps\<rparr> tax ed nf = Inr (t / c)"
    by (simp add: get_pps_def)
  from 1 pps_nonneg [of tax g ed sps nf] show ?thesis by blast
qed

text \<open>
  The example is the source's default call for a GCD of 2.5: the caster tax is the float
  0.12 (the double nearest to \<open>3 / 25\<close>), four burst casts a minute, no omitted
  filler cast.
\<close>

theorem C9_pps_quotient_nonneg_witness:
  "(0 \<le> double_of (3 / 25) \<and> double_of (3 / 25) < 5 / 2 \<and> 2 * (5 / 2) \<le> (30 :: real) \<and>
    (0 :: real) \<le> 4 \<and> (0 :: real) \<le> 1 \<and>
    (0 :: real) \<le> 2 * of_int \<lfloor>fdiv (budget (5 / 2)) (slot (5 / 2) (double_of (3 / 25)))\<rfloor>) \<and>
   total_potency_spreadsheet_port \<lparr>get_gcd = 5 / 2, get_dot_scalar = 1\<rparr> (double_of (3 / 25)) 4 0
     = Inr (6260341252017042265 / 281474976710656) \<and>
   get_cycle \<lparr>get_gcd = 5 / 2, get_dot_scalar = 1\<rparr> (double_of (3 / 25))
     = Inr (1543473664292416387 / 9007199254740992) \<and>
   get_pps \<lparr>get_gcd = 5 / 2, get_dot_scalar = 1\<rparr> (double_of (3 / 25)) 4 0
     = Inr (200330920064545352480 / 1543473664292416387) \<and>
   (0 :: real) \<le> 200330920064545352480 / 1543473664292416387"
proof -
  let ?cs = "\<lparr>get_gcd = 5 / 2, get_dot_scalar = 1\<rparr>"
  have h: "0 \<le> double_of (3 / 25) \<and> double_of (3 / 25) < 5 / 2 \<and> 2 * (5 / 2) \<le> (30 :: real) \<and>
    (0 :: real) \<le> 4 \<and> (0 :: real) \<le> 1 \<and>
    (0 :: real) \<le> 2 * of_int \<lfloor>fdiv (budget (5 / 2)) (slot (5 / 2) (double_of (3 / 25)))\<rfloor>"
    by code_simp
  have T: "total_potency_spreadsheet_port ?cs (double_of (3 / 25)) 4 0
             = Inr (6260341252017042265 / 281474976710656)"
    by code_simp
  have C: "get_cycle ?cs (double_of (3 / 25)) = Inr (1543473664292416387 / 9007199254740992)"
    by code_simp
  from C9_pps_quotient_nonneg [of "5 / 2" 1 "double_of (3 / 25)" 4 0] h
  obtain t c where tc: "total_potency_spreadsheet_port ?cs (double_of (3 / 25)) 4 0 = Inr t"
      "get_cycle ?cs (double_of (3 / 25)) = Inr c" "c \<noteq> 0"
      "get_pps ?cs (double_of (3 / 25)) 4 0 = Inr (t / c)" "0 \<le> t / c"
    by blast
  from tc(1) T have t: "t = 6260341252017042265 / 281474976710656" by simp
  from tc(2) C have c: "c = 1543473664292416387 / 9007199254740992" by simp
  have q: "t / c = 200330920064545352480 / 1543473664292416387" unfolding t c by simp
  from tc(4,5) have "get_pps ?cs (double_of (3 / 25)) 4 0
      = Inr (200330920064545352480 / 1543473664292416387) \<and>
    (0 :: real) \<le> 200330920064545352480 / 1543473664292416387"
    unfolding q by simp
  with h T C show ?thesis by blast
qed


end
